theory Spec2Isabelle
  imports Main "HOL-Library.Sublist"
begin

section \<open>The chat pipeline of \<^verbatim>\<open>src/components/chatbot/chatbot.jsx\<close>\<close>

text \<open>
  The component keeps five pieces of React state (\<^verbatim>\<open>messages\<close>, \<^verbatim>\<open>input\<close>,
  \<^verbatim>\<open>isContextEnabled\<close>, \<^verbatim>\<open>isFactCheckEnabled\<close>, \<^verbatim>\<open>isLoading\<close>) and one handler,
  \<^verbatim>\<open>handleSend\<close>, that runs a turn: it appends the user's message, calls the generation
  endpoint, optionally classifies and fact-checks the reply through the Gemini SDK, and
  appends the bot's message.

  Modelling decisions:
  \<^item> A JavaScript string is a \<^typ>\<open>string\<close> whose characters are the code units below
    256 (ASCII and the Latin-1 supplement). The built-ins \<^verbatim>\<open>trim\<close>, \<^verbatim>\<open>toUpperCase\<close>,
    \<^verbatim>\<open>toLowerCase\<close>, \<^verbatim>\<open>includes\<close>, \<^verbatim>\<open>endsWith\<close>, \<^verbatim>\<open>slice\<close> and \<^verbatim>\<open>join\<close> are written
    out with their behaviour on every such string. Upper-casing can leave this range
    and lengthen the string, so \<open>toUpperCase\<close> returns the code units as numbers.
  \<^item> \<^verbatim>\<open>null\<close> and \<^verbatim>\<open>undefined\<close> are \<^term>\<open>None\<close>; an object field that may be absent
    is an \<^typ>\<open>'a option\<close>.
  \<^item> Everything the handler awaits is an input of the model: a \<open>backend\<close> record holds
    what \<^verbatim>\<open>fetch\<close> and the two \<^verbatim>\<open>generateContent\<close> calls answer (a thrown exception or
    rejected promise is \<^term>\<open>Inl\<close>) and what \<^verbatim>\<open>Date.now()\<close> reads.
  \<^item> The handler returns the sequence of its effects (state setters and backend calls) in
    program order, and how its promise settles: fulfilled (\<^term>\<open>Inr\<close>) or rejected with
    the exception that left it (\<^term>\<open>Inl\<close>). \<open>run\<close> applies the setters to the state.
    One call of the handler is one atomic transition: nothing else happens to the state
    while it is suspended.
\<close>

subsection \<open>String built-ins\<close>

text \<open>
  What \<^verbatim>\<open>trim\<close> strips: the white space and line terminators of ECMAScript that lie
  below 256, which are tab, line feed, vertical tab, form feed, carriage return, space
  and the no-break space U+00A0.
\<close>

definition isSpace :: "char \<Rightarrow> bool" where
  "isSpace c =
     (c \<in> set [CHR 0x09, CHR 0x0A, CHR 0x0B, CHR 0x0C, CHR 0x0D, CHR 0x20, CHR 0xA0])"

definition trim :: "string \<Rightarrow> string" where
  "trim s = rev (dropWhile isSpace (rev (dropWhile isSpace s)))"

text \<open>The code units of a string, as numbers.\<close>

definition codes :: "string \<Rightarrow> nat list" where
  "codes s = map of_char s"

text \<open>
  \<^verbatim>\<open>toUpperCase\<close>, one code unit at a time: the letters \<^verbatim>\<open>a\<close> to \<^verbatim>\<open>z\<close> and the
  Latin-1 letters U+00E0 to U+00FE (the division sign U+00F7 apart) move down by 32;
  the sharp s U+00DF becomes \<^verbatim>\<open>SS\<close>; the micro sign U+00B5 becomes U+039C and
  U+00FF becomes U+0178; every other code unit stays.
\<close>

definition upperUnits :: "char \<Rightarrow> nat list" where
  "upperUnits c =
     (let n = (of_char c :: nat) in
      if 97 \<le> n \<and> n \<le> 122 then [n - 32]
      else if 224 \<le> n \<and> n \<le> 254 \<and> n \<noteq> 247 then [n - 32]
      else if n = 223 then [83, 83]
      else if n = 181 then [924]
      else if n = 255 then [376]
      else [n])"

definition toUpperCase :: "string \<Rightarrow> nat list" where
  "toUpperCase s = concat (map upperUnits s)"

text \<open>
  \<^verbatim>\<open>toLowerCase\<close>: the letters \<^verbatim>\<open>A\<close> to \<^verbatim>\<open>Z\<close> and the Latin-1 letters U+00C0 to U+00DE
  (the multiplication sign U+00D7 apart) move up by 32; every other code unit stays.
\<close>

definition lowerChar :: "char \<Rightarrow> char" where
  "lowerChar c =
     (let n = (of_char c :: nat) in
      if (65 \<le> n \<and> n \<le> 90) \<or> (192 \<le> n \<and> n \<le> 222 \<and> n \<noteq> 215) then char_of (n + 32)
      else c)"

definition toLowerCase :: "string \<Rightarrow> string" where
  "toLowerCase s = map lowerChar s"

definition startsWith :: "'a list \<Rightarrow> 'a list \<Rightarrow> bool" where
  "startsWith s p = (take (length p) s = p)"

text \<open>\<^verbatim>\<open>s.includes(p)\<close>: \<open>p\<close> occurs in \<open>s\<close> at some position.\<close>

fun includes_str :: "'a list \<Rightarrow> 'a list \<Rightarrow> bool" where
  "includes_str [] p = (p = [])"
| "includes_str (c # cs) p = (startsWith (c # cs) p \<or> includes_str cs p)"

definition endsWith :: "string \<Rightarrow> string \<Rightarrow> bool" where
  "endsWith s p = (length p \<le> length s \<and> drop (length s - length p) s = p)"

text \<open>\<^verbatim>\<open>xs.join(sep)\<close> on an array of strings.\<close>

fun join :: "string \<Rightarrow> string list \<Rightarrow> string" where
  "join sep [] = []"
| "join sep [x] = x"
| "join sep (x # y # ys) = x @ sep @ join sep (y # ys)"

text \<open>\<^verbatim>\<open>xs.slice(-n)\<close>: the last \<open>n\<close> elements, all of them when there are fewer.\<close>

definition slice_last :: "nat \<Rightarrow> 'a list \<Rightarrow> 'a list" where
  "slice_last n xs = drop (length xs - n) xs"

subsection \<open>Data\<close>

datatype sender = User | Bot

text \<open>
  A message object. \<^verbatim>\<open>id\<close> is a JavaScript number holding an integer; \<^verbatim>\<open>isError\<close> is
  only written on the apology message, and an absent field reads as false.
\<close>

record message =
  msg_id :: int
  msg_text :: string
  sender :: sender
  correction :: "string option"
  isError :: bool

record state =
  messages :: "message list"
  input :: string
  isContextEnabled :: bool
  isFactCheckEnabled :: bool
  isLoading :: bool

definition greeting :: message where
  "greeting = \<lparr>msg_id = 1,
     msg_text = ''Hello! Ask me anything. My responses can be fact-checked in real-time.'',
     sender = Bot, correction = None, isError = False\<rparr>"

definition initial :: state where
  "initial = \<lparr>messages = [greeting], input = [], isContextEnabled = True,
     isFactCheckEnabled = True, isLoading = False\<rparr>"

text \<open>What can be thrown inside the handler's \<^verbatim>\<open>try\<close> blocks.\<close>

datatype error =
    NetworkError
  | SyntaxError
  | TypeError
  | ApiError
  | CustomLLMError int
  | InvalidResponse

text \<open>
  The answer of \<^verbatim>\<open>fetch\<close>: \<^verbatim>\<open>response.ok\<close>, \<^verbatim>\<open>response.status\<close>, and what
  \<^verbatim>\<open>response.json()\<close> resolves to, reduced to the \<^verbatim>\<open>response\<close> field of the payload
  (\<^term>\<open>None\<close> when the field is absent; \<^term>\<open>Inl\<close> when the body does not parse, or
  parses to \<^verbatim>\<open>null\<close>, on which reading the field throws).
\<close>

record http_response =
  ok :: bool
  status :: int
  json :: "error + string option"

text \<open>The answer of the SDK's \<^verbatim>\<open>generateContent\<close>.\<close>

record part =
  part_text :: "string option"

record content =
  parts :: "part list option"

record candidate =
  content :: "content option"

datatype functionCall = FunctionCall string

record genai_response =
  resp_text :: "string option"
  functionCalls :: "functionCall list option"
  candidates :: "candidate list option"

text \<open>
  The environment of one turn. The three calls are keyed by the only varying part of
  their request: the prompt for \<^verbatim>\<open>fetch\<close>, the statement for the two Gemini calls.
  \<open>dateNow_user\<close> is the clock when the user's message is built, \<open>dateNow_bot\<close> the
  clock when the bot's (or the apology) message is built.
\<close>

record backend =
  dateNow_user :: int
  dateNow_bot :: int
  fetch :: "string \<Rightarrow> error + http_response"
  generateClassify :: "string \<Rightarrow> error + genai_response"
  generateVerify :: "string \<Rightarrow> error + genai_response"

datatype event =
    PreventDefault
  | SetMessages message
  | SetInput string
  | SetIsLoading bool
  | Fetch string
  | ClassifyCall string
  | VerifyCall string

fun apply_event :: "event \<Rightarrow> state \<Rightarrow> state" where
  "apply_event (SetMessages m) s = s\<lparr>messages := messages s @ [m]\<rparr>"
| "apply_event (SetInput v) s = s\<lparr>input := v\<rparr>"
| "apply_event (SetIsLoading v) s = s\<lparr>isLoading := v\<rparr>"
| "apply_event _ s = s"

definition run :: "state \<Rightarrow> event list \<Rightarrow> state" where
  "run s evs = fold apply_event evs s"

subsection \<open>\<^verbatim>\<open>classifyStatementType\<close>\<close>

datatype statementType = FACT | OPINION

text \<open>The \<^verbatim>\<open>try\<close> body after the call: \<^verbatim>\<open>response.text.trim()\<close> throws on a missing text.\<close>

definition classifyBody :: "error + genai_response \<Rightarrow> error + statementType" where
  "classifyBody r =
     (case r of
        Inl e \<Rightarrow> Inl e
      | Inr response \<Rightarrow>
          (case resp_text response of
             None \<Rightarrow> Inl TypeError
           | Some t \<Rightarrow>
               (let responseText = toUpperCase (trim t) in
                if includes_str responseText (codes ''FACT'') then Inr FACT else Inr OPINION)))"

definition classifyStatementType :: "backend \<Rightarrow> string \<Rightarrow> event list \<times> statementType" where
  "classifyStatementType b text =
     ([ClassifyCall text],
      (case classifyBody (generateClassify b text) of
         Inl e \<Rightarrow> OPINION
       | Inr t \<Rightarrow> t))"

subsection \<open>\<^verbatim>\<open>getFactCheckCorrection\<close>\<close>

definition truthy :: "string option \<Rightarrow> bool" where
  "truthy v = (case v of None \<Rightarrow> False | Some t \<Rightarrow> t \<noteq> [])"

text \<open>\<^verbatim>\<open>part.text\<close> as \<^verbatim>\<open>join\<close> renders it: an absent text is the empty string.\<close>

definition textOf :: "string option \<Rightarrow> string" where
  "textOf v = (case v of None \<Rightarrow> [] | Some t \<Rightarrow> t)"

text \<open>
  Lines 114 to 120: what \<^verbatim>\<open>groundedResponse\<close> holds after the first candidate has been
  looked at (it started as the empty string).
\<close>

definition candidateText :: "genai_response \<Rightarrow> string" where
  "candidateText response =
     (let cands = (case candidates response of None \<Rightarrow> [] | Some cs \<Rightarrow> cs) in
      case cands of
        [] \<Rightarrow> []
      | c # _ \<Rightarrow>
          (case content c of
             None \<Rightarrow> []
           | Some ct \<Rightarrow>
               (case parts ct of
                  None \<Rightarrow> []
                | Some ps \<Rightarrow>
                    (let textParts = filter (\<lambda>p. truthy (part_text p)) ps in
                     if length textParts > 0
                     then trim (join '' '' (map (\<lambda>p. textOf (part_text p)) textParts))
                     else []))))"

text \<open>Lines 107 to 129: the text the decision is taken on.\<close>

definition groundedResponse :: "genai_response \<Rightarrow> string" where
  "groundedResponse response =
     (if truthy (resp_text response) then trim (textOf (resp_text response))
      else if (case functionCalls response of None \<Rightarrow> False | Some fcs \<Rightarrow> length fcs > 0) then
        (let g = candidateText response in
         if g = [] then ''Unable to complete fact-check due to technical limitations.'' else g)
      else ''Unable to verify statement at this time.'')"

text \<open>Lines 132 to 138: \<^verbatim>\<open>null\<close> when the text says the statement is right.\<close>

definition decideCorrection :: "string \<Rightarrow> string option" where
  "decideCorrection g =
     (if toUpperCase g = codes ''CORRECT''
         \<or> includes_str (toLowerCase g) ''the statement is correct''
         \<or> includes_str (toLowerCase g) ''this is accurate''
      then None else Some g)"

definition getFactCheckCorrection :: "backend \<Rightarrow> string \<Rightarrow> event list \<times> string option" where
  "getFactCheckCorrection b textToVerify =
     (case classifyStatementType b textToVerify of
        (evs, type) \<Rightarrow>
          if type = OPINION then (evs, Some ''Statement is an opinion. Skipping fact-check.'')
          else
            (evs @ [VerifyCall textToVerify],
             (case generateVerify b textToVerify of
                Inl e \<Rightarrow> Some ''Fact-check service is currently unavailable.''
              | Inr response \<Rightarrow> decideCorrection (groundedResponse response))))"

subsection \<open>\<^verbatim>\<open>handleSend\<close>\<close>

definition processInput :: "string \<Rightarrow> string" where
  "processInput inp = (if endsWith (trim inp) ''?'' then trim inp else trim inp @ ''?'')"

definition buildPrompt :: "message list \<Rightarrow> bool \<Rightarrow> string \<Rightarrow> string" where
  "buildPrompt msgs contextEnabled processedInput =
     (if contextEnabled then
        (let history = slice_last 4 msgs;
             context = join ''\<newline>\<newline>'' (map msg_text history)
         in ''Previous conversation:\<newline>'' @ context @ ''\<newline>\<newline>Current question: '' @ processedInput)
      else processedInput)"

definition errorMessage :: "backend \<Rightarrow> message" where
  "errorMessage b = \<lparr>msg_id = dateNow_bot b + 1,
     msg_text = ''Sorry, I'm having trouble connecting. Please try again later.'',
     sender = Bot, correction = None, isError = True\<rparr>"

text \<open>
  The \<^verbatim>\<open>try\<close> block of lines 173 to 195: the effects performed, and whether the block
  completed (\<^term>\<open>Inr\<close>) or threw (\<^term>\<open>Inl\<close>).
\<close>

definition tryBlock :: "backend \<Rightarrow> state \<Rightarrow> string \<Rightarrow> event list \<times> (error + unit)" where
  "tryBlock b s promptWithContext =
     (case fetch b promptWithContext of
        Inl e \<Rightarrow> ([Fetch promptWithContext], Inl e)
      | Inr response \<Rightarrow>
          if \<not> ok response then ([Fetch promptWithContext], Inl (CustomLLMError (status response)))
          else
            (case json response of
               Inl e \<Rightarrow> ([Fetch promptWithContext], Inl e)
             | Inr resp \<Rightarrow>
                 if \<not> truthy resp then ([Fetch promptWithContext], Inl InvalidResponse)
                 else
                   (case (if isFactCheckEnabled s then getFactCheckCorrection b (textOf resp)
                          else ([], None)) of
                      (evs, corr) \<Rightarrow>
                        (let botMessage = \<lparr>msg_id = dateNow_bot b + 1, msg_text = textOf resp,
                               sender = Bot, correction = corr, isError = False\<rparr>
                         in ([Fetch promptWithContext] @ evs @ [SetMessages botMessage], Inr ())))))"

text \<open>
  \<^verbatim>\<open>catch\<close> and \<^verbatim>\<open>finally\<close> around a block that yields its effects and its completion.
  The \<^verbatim>\<open>catch\<close> clause runs its own effects on any exception and completes normally; the
  \<^verbatim>\<open>finally\<close> clause runs its effects on both completions and passes the completion on.
\<close>

definition catchAll ::
  "(error \<Rightarrow> event list) \<Rightarrow> event list \<times> (error + unit) \<Rightarrow> event list \<times> (error + unit)" where
  "catchAll handler block =
     (case block of
        (evs, Inl e) \<Rightarrow> (evs @ handler e, Inr ())
      | (evs, Inr u) \<Rightarrow> (evs, Inr u))"

definition finallyDo ::
  "event list \<Rightarrow> event list \<times> (error + unit) \<Rightarrow> event list \<times> (error + unit)" where
  "finallyDo cleanup block = (case block of (evs, r) \<Rightarrow> (evs @ cleanup, r))"

text \<open>
  Lines 155 to 209: the effects of the handler in order, and how the promise it returns
  settles.
\<close>

definition handleSendAsync :: "backend \<Rightarrow> state \<Rightarrow> event list \<times> (error + unit)" where
  "handleSendAsync b s =
     (if trim (input s) = [] \<or> isLoading s then ([PreventDefault], Inr ())
      else
        (let processedInput = processInput (input s);
             userMessage = \<lparr>msg_id = dateNow_user b, msg_text = processedInput,
               sender = User, correction = None, isError = False\<rparr>;
             promptWithContext = buildPrompt (messages s) (isContextEnabled s) processedInput
         in case finallyDo [SetIsLoading False]
                   (catchAll (\<lambda>error. [SetMessages (errorMessage b)])
                      (tryBlock b s promptWithContext)) of
              (evs, r) \<Rightarrow>
                ([PreventDefault, SetMessages userMessage, SetInput [], SetIsLoading True] @ evs,
                 r)))"

text \<open>The effects of the handler.\<close>

definition handleSend :: "backend \<Rightarrow> state \<Rightarrow> event list" where
  "handleSend b s = fst (handleSendAsync b s)"

text \<open>The state after the handler has run.\<close>

definition submit :: "backend \<Rightarrow> state \<Rightarrow> state" where
  "submit b s = run s (handleSend b s)"

text \<open>
  What the user can do between renders: type into the input box (disabled while a turn
  is in flight), flip a toggle, or submit the form.
\<close>

datatype action =
    Type string
  | ToggleContext
  | ToggleFactCheck
  | Submit backend

fun step :: "state \<Rightarrow> action \<Rightarrow> state" where
  "step s (Type v) = (if isLoading s then s else s\<lparr>input := v\<rparr>)"
| "step s ToggleContext = s\<lparr>isContextEnabled := \<not> isContextEnabled s\<rparr>"
| "step s ToggleFactCheck = s\<lparr>isFactCheckEnabled := \<not> isFactCheckEnabled s\<rparr>"
| "step s (Submit b) = submit b s"

definition exec :: "action list \<Rightarrow> state" where
  "exec as = foldl step initial as"

subsection \<open>Observations on a trace\<close>

text \<open>The messages a trace appends, in order.\<close>

fun appended :: "event list \<Rightarrow> message list" where
  "appended [] = []"
| "appended (SetMessages m # es) = m # appended es"
| "appended (e # es) = appended es"

text \<open>The prompts a trace sends to the generation endpoint.\<close>

fun fetched :: "event list \<Rightarrow> string list" where
  "fetched [] = []"
| "fetched (Fetch p # es) = p # fetched es"
| "fetched (e # es) = fetched es"

text \<open>The values a trace writes to \<^verbatim>\<open>isLoading\<close>.\<close>

fun loadingWrites :: "event list \<Rightarrow> bool list" where
  "loadingWrites [] = []"
| "loadingWrites (SetIsLoading v # es) = v # loadingWrites es"
| "loadingWrites (e # es) = loadingWrites es"

fun isBackendCall :: "event \<Rightarrow> bool" where
  "isBackendCall (Fetch p) = True"
| "isBackendCall (ClassifyCall t) = True"
| "isBackendCall (VerifyCall t) = True"
| "isBackendCall e = False"

fun isFactCheckCall :: "event \<Rightarrow> bool" where
  "isFactCheckCall (ClassifyCall t) = True"
| "isFactCheckCall (VerifyCall t) = True"
| "isFactCheckCall e = False"

text \<open>
  The non-empty texts among the parts of the first candidate; none when there is no
  candidate, or it has no content, or the content has no parts.
\<close>

definition firstCandidateFragments :: "genai_response \<Rightarrow> string list" where
  "firstCandidateFragments response =
     (case candidates response of
        None \<Rightarrow> []
      | Some [] \<Rightarrow> []
      | Some (c # cs) \<Rightarrow>
          (case content c of
             None \<Rightarrow> []
           | Some ct \<Rightarrow>
               (case parts ct of
                  None \<Rightarrow> []
                | Some ps \<Rightarrow> filter (\<lambda>t. t \<noteq> []) (map (\<lambda>p. textOf (part_text p)) ps))))"

text \<open>
  The extraction policy as the specification words it: the text fragments of all
  candidates, joined with spaces.
\<close>

definition fragmentsOf :: "candidate \<Rightarrow> string list" where
  "fragmentsOf c =
     (case content c of
        None \<Rightarrow> []
      | Some ct \<Rightarrow>
          (case parts ct of
             None \<Rightarrow> []
           | Some ps \<Rightarrow> filter (\<lambda>t. t \<noteq> []) (map (\<lambda>p. textOf (part_text p)) ps)))"

definition spec_fragments :: "genai_response \<Rightarrow> string list" where
  "spec_fragments response =
     concat (map fragmentsOf (case candidates response of None \<Rightarrow> [] | Some cs \<Rightarrow> cs))"

definition spec_extractedText :: "genai_response \<Rightarrow> string" where
  "spec_extractedText response =
     (if truthy (resp_text response) then trim (textOf (resp_text response))
      else if (case functionCalls response of None \<Rightarrow> False | Some fcs \<Rightarrow> fcs \<noteq> []) then
        (if spec_fragments response = []
         then ''Unable to complete fact-check due to technical limitations.''
         else join '' '' (spec_fragments response))
      else ''Unable to verify statement at this time.'')"

subsection \<open>Comparing text without regard to case\<close>

text \<open>
  The specification's words for the two parsing rules, written without the built-ins of
  the code: two characters are the same letter when they are equal or are the two cases
  of one of the letters \<^verbatim>\<open>a\<close> to \<^verbatim>\<open>z\<close>; a text equals a word ignoring case when they
  agree letter by letter; a text contains a word ignoring case when some stretch of it
  equals the word ignoring case.
\<close>

definition letterPairs :: "(char \<times> char) list" where
  "letterPairs = zip ''abcdefghijklmnopqrstuvwxyz'' ''ABCDEFGHIJKLMNOPQRSTUVWXYZ''"

definition sameLetter :: "char \<Rightarrow> char \<Rightarrow> bool" where
  "sameLetter c d = (c = d \<or> (c, d) \<in> set letterPairs \<or> (d, c) \<in> set letterPairs)"

definition equalsIgnoringCase :: "string \<Rightarrow> string \<Rightarrow> bool" where
  "equalsIgnoringCase s w = list_all2 sameLetter s w"

fun containsIgnoringCase :: "string \<Rightarrow> string \<Rightarrow> bool" where
  "containsIgnoringCase [] w = (w = [])"
| "containsIgnoringCase (c # cs) w =
     (equalsIgnoringCase (take (length w) (c # cs)) w \<or> containsIgnoringCase cs w)"

subsection \<open>Example turns\<close>

text \<open>
  Concrete backends, states and responses on which the results below are evaluated.
\<close>

definition textOnly :: "string \<Rightarrow> genai_response" where
  "textOnly t = \<lparr>resp_text = Some t, functionCalls = None, candidates = None\<rparr>"

definition demo_backend :: backend where
  "demo_backend = \<lparr>dateNow_user = 1700000000000, dateNow_bot = 1700000002500,
     fetch = (\<lambda>p. Inr \<lparr>ok = True, status = 200,
                json = Inr (Some ''The sky is green due to scattering.'')\<rparr>),
     generateClassify = (\<lambda>t. Inr (textOnly ''FACT'')),
     generateVerify = (\<lambda>t. Inr (textOnly ''The sky is blue, not green, due to Rayleigh scattering.''))\<rparr>"

definition demo_state :: state where
  "demo_state = initial\<lparr>input := ''the sky is green''\<rparr>"

definition failing_backend :: backend where
  "failing_backend = demo_backend\<lparr>fetch := (\<lambda>p. Inr \<lparr>ok = False, status = 500, json = Inl SyntaxError\<rparr>)\<rparr>"

definition offline_backend :: backend where
  "offline_backend = \<lparr>dateNow_user = 1700000000000, dateNow_bot = 1700000000040,
     fetch = (\<lambda>p. Inl NetworkError),
     generateClassify = (\<lambda>t. Inl ApiError),
     generateVerify = (\<lambda>t. Inl ApiError)\<rparr>"

definition next_turn_backend :: backend where
  "next_turn_backend = demo_backend\<lparr>dateNow_user := 1700000002501, dateNow_bot := 1700000004000\<rparr>"

definition second_candidate_response :: genai_response where
  "second_candidate_response =
     \<lparr>resp_text = None,
      functionCalls = Some [FunctionCall ''google_search''],
      candidates = Some
        [\<lparr>content = Some \<lparr>parts = Some [\<lparr>part_text = Some ''\<newline>''\<rparr>]\<rparr>\<rparr>,
         \<lparr>content = Some \<lparr>parts = Some [\<lparr>part_text = Some ''The capital is Paris.''\<rparr>]\<rparr>\<rparr>]\<rparr>"

definition confirming_backend :: backend where
  "confirming_backend = demo_backend\<lparr>generateVerify :=
     (\<lambda>t. Inr (textOnly ''The statement is correct because air scatters blue light.''))\<rparr>"

definition unavailable_backend :: backend where
  "unavailable_backend = demo_backend\<lparr>generateVerify := (\<lambda>t. Inl ApiError)\<rparr>"

definition loading_state :: state where
  "loading_state = demo_state\<lparr>isLoading := True\<rparr>"

definition blank_state :: state where
  "blank_state = initial\<lparr>input := ''   ''\<rparr>"

definition long_state :: state where
  "long_state = exec [Type ''one'', Submit demo_backend, Type ''two'', Submit next_turn_backend, Type ''three'']"

definition empty_payload_backend :: backend where
  "empty_payload_backend = demo_backend\<lparr>fetch := (\<lambda>p. Inr \<lparr>ok = True, status = 200, json = Inr (Some [])\<rparr>)\<rparr>"

definition unchecked_state :: state where
  "unchecked_state = demo_state\<lparr>isFactCheckEnabled := False\<rparr>"

definition nbsp_state :: state where
  "nbsp_state = initial\<lparr>input := [CHR 0xA0, CHR 0x09, CHR 0x20, CHR 0x0A]\<rparr>"

definition lowercase_backend :: backend where
  "lowercase_backend = demo_backend\<lparr>
     generateClassify := (\<lambda>t. Inr (textOnly '' it is a fact.\<newline>'')),
     generateVerify := (\<lambda>t. Inr (textOnly ''correct\<newline>''))\<rparr>"

definition mixed_case_backend :: backend where
  "mixed_case_backend = demo_backend\<lparr>
     generateClassify := (\<lambda>t. Inr (textOnly ''Fact'')),
     generateVerify := (\<lambda>t. Inr (textOnly ''Yes, This Is ACCURATE: the sky scatters light.''))\<rparr>"

definition opinion_backend :: backend where
  "opinion_backend = demo_backend\<lparr>generateClassify := (\<lambda>t. Inr (textOnly ''Opinion''))\<rparr>"

section \<open>Properties\<close>

subsection \<open>Auxiliary facts\<close>

lemma startsWith_iff: "startsWith s p \<longleftrightarrow> (\<exists>ss. s = p @ ss)"
  unfolding startsWith_def by (metis append_eq_conv_conj append_take_drop_id)

lemma includes_str_iff: "includes_str s p \<longleftrightarrow> sublist p s"
proof (induction s)
  case Nil
  then show ?case by simp
next
  case (Cons c cs)
  have "sublist p (c # cs) \<longleftrightarrow> prefix p (c # cs) \<or> sublist p cs"
    by (rule sublist_Cons_right)
  moreover have "startsWith (c # cs) p \<longleftrightarrow> prefix p (c # cs)"
    by (simp add: startsWith_iff prefix_def)
  ultimately show ?case using Cons.IH by simp
qed

text \<open>The built-in case mappings against the letter table.\<close>

lemma char_eq_code: "(c = d) = ((of_char c :: nat) = of_char d)"
  by simp

lemma of_char_lowerChar:
  "(of_char (lowerChar c) :: nat) =
     (if (65 \<le> (of_char c :: nat) \<and> (of_char c :: nat) \<le> 90)
         \<or> (192 \<le> (of_char c :: nat) \<and> (of_char c :: nat) \<le> 222 \<and> (of_char c :: nat) \<noteq> 215)
      then of_char c + 32 else of_char c)"
  by (auto simp add: lowerChar_def Let_def)

lemma letter_table:
  "\<forall>n \<in> set [0..<26].
     (of_char (''abcdefghijklmnopqrstuvwxyz'' ! n) :: nat) = 97 + n
     \<and> (of_char (''ABCDEFGHIJKLMNOPQRSTUVWXYZ'' ! n) :: nat) = 65 + n"
  by code_simp

lemma letterPairs_code:
  "(c, d) \<in> set letterPairs \<longleftrightarrow>
     97 \<le> (of_char c :: nat) \<and> (of_char c :: nat) \<le> 122 \<and> (of_char d :: nat) + 32 = of_char c"
proof -
  let ?lo = "''abcdefghijklmnopqrstuvwxyz''" and ?up = "''ABCDEFGHIJKLMNOPQRSTUVWXYZ''"
  have t: "\<And>n. n < 26 \<Longrightarrow> (of_char (?lo ! n) :: nat) = 97 + n \<and> (of_char (?up ! n) :: nat) = 65 + n"
    using letter_table by simp
  have len: "length ?lo = 26" "length ?up = 26" by simp_all
  have "(c, d) \<in> set letterPairs \<longleftrightarrow> (\<exists>n. ?lo ! n = c \<and> ?up ! n = d \<and> n < 26 \<and> n < 26)"
    by (simp only: letterPairs_def in_set_zip fst_conv snd_conv len)
  also have "\<dots> \<longleftrightarrow> (\<exists>n<26. ?lo ! n = c \<and> ?up ! n = d)"
    by blast
  also have "\<dots> \<longleftrightarrow> (\<exists>n<26. 97 + n = (of_char c :: nat) \<and> 65 + n = (of_char d :: nat))"
  proof -
    have "(?lo ! n = c \<and> ?up ! n = d) \<longleftrightarrow> (97 + n = (of_char c :: nat) \<and> 65 + n = (of_char d :: nat))"
      if "n < 26" for n
    proof -
      from t [OF that] have a: "97 + n = (of_char (?lo ! n) :: nat)" "65 + n = (of_char (?up ! n) :: nat)"
        by simp_all
      show ?thesis unfolding a by simp
    qed
    then show ?thesis by blast
  qed
  also have "\<dots> \<longleftrightarrow> 97 \<le> (of_char c :: nat) \<and> (of_char c :: nat) \<le> 122 \<and> (of_char d :: nat) + 32 = of_char c"
    by presburger
  finally show ?thesis .
qed

lemma sameLetter_code:
  "sameLetter c d \<longleftrightarrow>
     (of_char c :: nat) = of_char d
     \<or> (97 \<le> (of_char c :: nat) \<and> (of_char c :: nat) \<le> 122 \<and> (of_char d :: nat) + 32 = of_char c)
     \<or> (97 \<le> (of_char d :: nat) \<and> (of_char d :: nat) \<le> 122 \<and> (of_char c :: nat) + 32 = of_char d)"
  unfolding sameLetter_def letterPairs_code by simp

lemma lower_or_space_code:
  assumes "d \<in> set ''abcdefghijklmnopqrstuvwxyz ''"
  shows "(97 \<le> (of_char d :: nat) \<and> (of_char d :: nat) \<le> 122) \<or> (of_char d :: nat) = 32"
  using assms by auto

lemma lowerChar_sameLetter:
  assumes "d \<in> set ''abcdefghijklmnopqrstuvwxyz ''"
  shows "lowerChar c = d \<longleftrightarrow> sameLetter c d"
proof -
  have "(of_char (lowerChar c) :: nat) = of_char d \<longleftrightarrow> sameLetter c d"
    using lower_or_space_code [OF assms] nat_of_char_less_256 [of c]
    unfolding of_char_lowerChar sameLetter_code
    by (auto split: if_splits)
  then show ?thesis by simp
qed

lemma upper_code:
  assumes "d \<in> set ''ABCDEFGHIJKLMNOPQRSTUVWXYZ''"
  shows "65 \<le> (of_char d :: nat) \<and> (of_char d :: nat) \<le> 90"
  using assms by auto

lemma upperUnits_sameLetter:
  assumes "d \<in> set ''ABCDEFGHIJKLMNOPQRSTUVWXYZ''"
  shows "upperUnits c = [of_char d] \<longleftrightarrow> sameLetter c d"
  using upper_code [OF assms] nat_of_char_less_256 [of c]
  unfolding upperUnits_def sameLetter_code Let_def
  by (auto split: if_splits)

lemma upperUnits_cases: "upperUnits c = [83, 83] \<or> (\<exists>k. upperUnits c = [k])"
  by (simp add: upperUnits_def Let_def)

lemma equalsIgnoringCase_simps:
  "equalsIgnoringCase [] w \<longleftrightarrow> w = []"
  "equalsIgnoringCase (c # m) [] \<longleftrightarrow> False"
  "equalsIgnoringCase (c # m) (d # w) \<longleftrightarrow> sameLetter c d \<and> equalsIgnoringCase m w"
  by (auto simp add: equalsIgnoringCase_def)

lemma toLowerCase_eq_iff:
  assumes "set w \<subseteq> set ''abcdefghijklmnopqrstuvwxyz ''"
  shows "toLowerCase m = w \<longleftrightarrow> equalsIgnoringCase m w"
  using assms
proof (induction m arbitrary: w)
  case Nil
  show ?case by (auto simp add: toLowerCase_def equalsIgnoringCase_simps)
next
  case (Cons c m)
  show ?case
  proof (cases w)
    case Nil
    then show ?thesis by (simp add: toLowerCase_def equalsIgnoringCase_simps)
  next
    case (Cons d w')
    with Cons.prems have d: "d \<in> set ''abcdefghijklmnopqrstuvwxyz ''"
      and w': "set w' \<subseteq> set ''abcdefghijklmnopqrstuvwxyz ''"
      by auto
    from Cons.IH [OF w'] have ih: "toLowerCase m = w' \<longleftrightarrow> equalsIgnoringCase m w'" .
    have "toLowerCase (c # m) = d # w' \<longleftrightarrow> lowerChar c = d \<and> toLowerCase m = w'"
      by (simp add: toLowerCase_def)
    then show ?thesis
      unfolding Cons equalsIgnoringCase_simps ih lowerChar_sameLetter [OF d] by simp
  qed
qed

lemma startsWith_lower_iff:
  assumes "set w \<subseteq> set ''abcdefghijklmnopqrstuvwxyz ''"
  shows "startsWith (toLowerCase s) w \<longleftrightarrow> equalsIgnoringCase (take (length w) s) w"
proof -
  have "take (length w) (toLowerCase s) = toLowerCase (take (length w) s)"
    by (simp add: toLowerCase_def take_map)
  then show ?thesis
    unfolding startsWith_def using toLowerCase_eq_iff [OF assms] by simp
qed

lemma includes_lower_iff:
  assumes "set w \<subseteq> set ''abcdefghijklmnopqrstuvwxyz ''"
  shows "includes_str (toLowerCase s) w \<longleftrightarrow> containsIgnoringCase s w"
proof (induction s)
  case Nil
  show ?case by (simp add: toLowerCase_def)
next
  case (Cons c s)
  have "includes_str (toLowerCase (c # s)) w \<longleftrightarrow>
          startsWith (toLowerCase (c # s)) w \<or> includes_str (toLowerCase s) w"
    by (simp add: toLowerCase_def)
  then show ?case
    unfolding startsWith_lower_iff [OF assms] Cons.IH by simp
qed

lemma upperUnits_not_Nil: "upperUnits c \<noteq> []"
  using upperUnits_cases [of c] by auto

lemma upperUnits_sharp_s:
  assumes "upperUnits c = [83, 83]" and "d \<in> set ''ABCDEFGHIJKLMNOPQRTUVWXYZ''"
  shows "\<not> sameLetter c d" and "(of_char d :: nat) \<noteq> 83"
proof -
  from assms(2) have d: "d \<in> set ''ABCDEFGHIJKLMNOPQRSTUVWXYZ''" by auto
  from assms(1) have "upperUnits c \<noteq> [of_char d]" by simp
  then show "\<not> sameLetter c d" using upperUnits_sameLetter [OF d] by simp
  from assms(2) show "(of_char d :: nat) \<noteq> 83" by auto
qed

lemma startsWith_upper_iff:
  assumes "set w \<subseteq> set ''ABCDEFGHIJKLMNOPQRTUVWXYZ''"
  shows "startsWith (toUpperCase s) (codes w) \<longleftrightarrow> equalsIgnoringCase (take (length w) s) w"
  using assms
proof (induction s arbitrary: w)
  case Nil
  show ?case
    by (auto simp add: startsWith_def toUpperCase_def codes_def equalsIgnoringCase_simps)
next
  case (Cons c s)
  show ?case
  proof (cases w)
    case Nil
    then show ?thesis by (simp add: startsWith_def codes_def equalsIgnoringCase_simps)
  next
    case w: (Cons d w')
    with Cons.prems have d: "d \<in> set ''ABCDEFGHIJKLMNOPQRTUVWXYZ''"
      and w': "set w' \<subseteq> set ''ABCDEFGHIJKLMNOPQRTUVWXYZ''"
      by auto
    from d have d': "d \<in> set ''ABCDEFGHIJKLMNOPQRSTUVWXYZ''" by auto
    from Cons.IH [OF w']
    have ih: "startsWith (toUpperCase s) (codes w') \<longleftrightarrow> equalsIgnoringCase (take (length w') s) w'" .
    from upperUnits_cases [of c] show ?thesis
    proof
      assume ss: "upperUnits c = [83, 83]"
      from upperUnits_sharp_s [OF ss d]
      show ?thesis
        by (simp add: w startsWith_def toUpperCase_def codes_def ss equalsIgnoringCase_simps)
    next
      assume "\<exists>k. upperUnits c = [k]"
      then obtain k where k: "upperUnits c = [k]" by blast
      have "startsWith (toUpperCase (c # s)) (codes (d # w')) \<longleftrightarrow>
              k = of_char d \<and> startsWith (toUpperCase s) (codes w')"
        by (simp add: startsWith_def toUpperCase_def codes_def k)
      moreover have "k = of_char d \<longleftrightarrow> sameLetter c d"
        using upperUnits_sameLetter [OF d', of c] k by simp
      ultimately show ?thesis
        unfolding w ih by (simp add: equalsIgnoringCase_simps)
    qed
  qed
qed

lemma toUpperCase_eq_iff:
  assumes "set w \<subseteq> set ''ABCDEFGHIJKLMNOPQRTUVWXYZ''"
  shows "toUpperCase s = codes w \<longleftrightarrow> equalsIgnoringCase s w"
  using assms
proof (induction s arbitrary: w)
  case Nil
  show ?case by (auto simp add: toUpperCase_def codes_def equalsIgnoringCase_simps)
next
  case (Cons c s)
  show ?case
  proof (cases w)
    case Nil
    then show ?thesis
      using upperUnits_not_Nil [of c]
      by (simp add: toUpperCase_def codes_def equalsIgnoringCase_simps)
  next
    case w: (Cons d w')
    with Cons.prems have d: "d \<in> set ''ABCDEFGHIJKLMNOPQRTUVWXYZ''"
      and w': "set w' \<subseteq> set ''ABCDEFGHIJKLMNOPQRTUVWXYZ''"
      by auto
    from d have d': "d \<in> set ''ABCDEFGHIJKLMNOPQRSTUVWXYZ''" by auto
    from Cons.IH [OF w'] have ih: "toUpperCase s = codes w' \<longleftrightarrow> equalsIgnoringCase s w'" .
    from upperUnits_cases [of c] show ?thesis
    proof
      assume ss: "upperUnits c = [83, 83]"
      from upperUnits_sharp_s [OF ss d]
      show ?thesis
        by (simp add: w toUpperCase_def codes_def ss equalsIgnoringCase_simps)
    next
      assume "\<exists>k. upperUnits c = [k]"
      then obtain k where k: "upperUnits c = [k]" by blast
      have "toUpperCase (c # s) = codes (d # w') \<longleftrightarrow> k = of_char d \<and> toUpperCase s = codes w'"
        by (simp add: toUpperCase_def codes_def k)
      moreover have "k = of_char d \<longleftrightarrow> sameLetter c d"
        using upperUnits_sameLetter [OF d', of c] k by simp
      ultimately show ?thesis
        unfolding w ih by (simp add: equalsIgnoringCase_simps)
    qed
  qed
qed

lemma includes_upper_iff:
  assumes "set w \<subseteq> set ''ABCDEFGHIJKLMNOPQRTUVWXYZ''" and "w \<noteq> []"
  shows "includes_str (toUpperCase s) (codes w) \<longleftrightarrow> containsIgnoringCase s w"
proof (induction s)
  case Nil
  from assms(2) show ?case by (simp add: toUpperCase_def codes_def)
next
  case (Cons c s)
  from assms obtain d w' where w: "w = d # w'" and d: "d \<in> set ''ABCDEFGHIJKLMNOPQRTUVWXYZ''"
    by (cases w) auto
  from upperUnits_cases [of c] show ?case
  proof
    assume ss: "upperUnits c = [83, 83]"
    from upperUnits_sharp_s [OF ss d]
    have "includes_str (toUpperCase (c # s)) (codes w) \<longleftrightarrow> includes_str (toUpperCase s) (codes w)"
      and "\<not> equalsIgnoringCase (take (length w) (c # s)) w"
      by (simp_all add: w toUpperCase_def codes_def ss startsWith_def equalsIgnoringCase_simps)
    then show ?thesis using Cons.IH by simp
  next
    assume "\<exists>k. upperUnits c = [k]"
    then obtain k where k: "upperUnits c = [k]" by blast
    have "includes_str (toUpperCase (c # s)) (codes w) \<longleftrightarrow>
            startsWith (toUpperCase (c # s)) (codes w) \<or> includes_str (toUpperCase s) (codes w)"
      by (simp add: toUpperCase_def k)
    then show ?thesis
      unfolding startsWith_upper_iff [OF assms(1)] Cons.IH by simp
  qed
qed

lemma equalsIgnoringCase_take:
  "equalsIgnoringCase (take (length w) s) w \<longleftrightarrow> (\<exists>m q. s = m @ q \<and> equalsIgnoringCase m w)"
proof
  assume "equalsIgnoringCase (take (length w) s) w"
  then have "s = take (length w) s @ drop (length w) s \<and> equalsIgnoringCase (take (length w) s) w"
    by simp
  then show "\<exists>m q. s = m @ q \<and> equalsIgnoringCase m w" by blast
next
  assume "\<exists>m q. s = m @ q \<and> equalsIgnoringCase m w"
  then obtain m q where s: "s = m @ q" and e: "equalsIgnoringCase m w" by blast
  from e have "length m = length w" by (simp add: equalsIgnoringCase_def list_all2_lengthD)
  with s e show "equalsIgnoringCase (take (length w) s) w" by simp
qed

lemma containsIgnoringCase_iff:
  "containsIgnoringCase s w \<longleftrightarrow> (\<exists>p m q. s = p @ m @ q \<and> equalsIgnoringCase m w)"
proof (induction s)
  case Nil
  show ?case by (auto simp add: equalsIgnoringCase_simps)
next
  case (Cons c s)
  have "(\<exists>p m q. c # s = p @ m @ q \<and> equalsIgnoringCase m w) \<longleftrightarrow>
          (\<exists>m q. c # s = m @ q \<and> equalsIgnoringCase m w)
          \<or> (\<exists>p m q. s = p @ m @ q \<and> equalsIgnoringCase m w)"
  proof
    assume "\<exists>p m q. c # s = p @ m @ q \<and> equalsIgnoringCase m w"
    then obtain p m q where e: "c # s = p @ m @ q" "equalsIgnoringCase m w" by blast
    show "(\<exists>m q. c # s = m @ q \<and> equalsIgnoringCase m w)
          \<or> (\<exists>p m q. s = p @ m @ q \<and> equalsIgnoringCase m w)"
    proof (cases p)
      case Nil
      with e show ?thesis by auto
    next
      case (Cons a p')
      with e have "s = p' @ m @ q" by simp
      with e(2) show ?thesis by blast
    qed
  next
    assume "(\<exists>m q. c # s = m @ q \<and> equalsIgnoringCase m w)
          \<or> (\<exists>p m q. s = p @ m @ q \<and> equalsIgnoringCase m w)"
    then show "\<exists>p m q. c # s = p @ m @ q \<and> equalsIgnoringCase m w"
    proof
      assume "\<exists>m q. c # s = m @ q \<and> equalsIgnoringCase m w"
      then obtain m q where "c # s = [] @ m @ q" "equalsIgnoringCase m w" by auto
      then show ?thesis by blast
    next
      assume "\<exists>p m q. s = p @ m @ q \<and> equalsIgnoringCase m w"
      then obtain p m q where "c # s = (c # p) @ m @ q" "equalsIgnoringCase m w" by auto
      then show ?thesis by blast
    qed
  qed
  then show ?case
    using Cons.IH equalsIgnoringCase_take [of w "c # s"] by simp
qed

lemma phrase_letters:
  "set ''the statement is correct'' \<subseteq> set ''abcdefghijklmnopqrstuvwxyz ''"
  "set ''this is accurate'' \<subseteq> set ''abcdefghijklmnopqrstuvwxyz ''"
  "set ''CORRECT'' \<subseteq> set ''ABCDEFGHIJKLMNOPQRTUVWXYZ''"
  "set ''FACT'' \<subseteq> set ''ABCDEFGHIJKLMNOPQRTUVWXYZ''"
  by simp_all

lemma blank_input:
  assumes "set inp \<subseteq> set [CHR 0x09, CHR 0x0A, CHR 0x0B, CHR 0x0C, CHR 0x0D, CHR 0x20, CHR 0xA0]"
  shows "\<forall>c \<in> set inp. isSpace c"
  using assms unfolding isSpace_def by blast

lemma trim_Nil_iff: "trim s = [] \<longleftrightarrow> (\<forall>c \<in> set s. isSpace c)"
proof
  assume "trim s = []"
  then have "\<forall>x \<in> set (dropWhile isSpace s). isSpace x"
    by (simp add: trim_def)
  then have "dropWhile isSpace (dropWhile isSpace s) = []"
    by (simp only: dropWhile_eq_Nil_conv)
  then have "dropWhile isSpace s = []"
    by (simp only: dropWhile_idem)
  then show "\<forall>c \<in> set s. isSpace c" by simp
next
  assume "\<forall>c \<in> set s. isSpace c"
  then have h: "dropWhile isSpace s = []" by simp
  show "trim s = []" unfolding trim_def h by simp
qed

lemma run_append: "run s (xs @ ys) = run (run s xs) ys"
  by (simp add: run_def)

lemma run_Cons: "run s (e # es) = run (apply_event e s) es"
  by (simp add: run_def)

lemma run_Nil: "run s [] = s"
  by (simp add: run_def)

lemma messages_run: "messages (run s evs) = messages s @ appended evs"
  by (induction evs arbitrary: s rule: appended.induct) (simp_all add: run_Cons run_Nil)

lemma isLoading_run:
  "isLoading (run s evs) = (if loadingWrites evs = [] then isLoading s else last (loadingWrites evs))"
  by (induction evs arbitrary: s rule: loadingWrites.induct) (simp_all add: run_Cons run_Nil)

lemma slice_last_suffix: "suffix (slice_last n xs) xs"
  by (simp add: slice_last_def suffix_drop)

lemma slice_last_length: "length (slice_last n xs) = min n (length xs)"
  by (simp add: slice_last_def)

lemma classify_events: "fst (classifyStatementType b t) = [ClassifyCall t]"
  by (simp add: classifyStatementType_def)

lemma getFactCheckCorrection_events:
  "fst (getFactCheckCorrection b t) =
     (if snd (classifyStatementType b t) = OPINION then [ClassifyCall t]
      else [ClassifyCall t, VerifyCall t])"
  by (simp add: getFactCheckCorrection_def classifyStatementType_def split: prod.splits)

lemma factCheck_no_writes:
  "appended (fst (getFactCheckCorrection b t)) = []"
  "loadingWrites (fst (getFactCheckCorrection b t)) = []"
  "fetched (fst (getFactCheckCorrection b t)) = []"
  by (simp_all add: getFactCheckCorrection_events)

lemma loadingWrites_append: "loadingWrites (xs @ ys) = loadingWrites xs @ loadingWrites ys"
  by (induction xs rule: loadingWrites.induct) simp_all

lemma appended_append: "appended (xs @ ys) = appended xs @ appended ys"
  by (induction xs rule: appended.induct) simp_all

lemma fetched_append: "fetched (xs @ ys) = fetched xs @ fetched ys"
  by (induction xs rule: fetched.induct) simp_all

lemma factCheck_branch:
  "\<exists>evs corr. (if isFactCheckEnabled s then getFactCheckCorrection b t else ([], None)) = (evs, corr)
      \<and> appended evs = [] \<and> loadingWrites evs = [] \<and> fetched evs = []
      \<and> (\<not> isFactCheckEnabled s \<longrightarrow> evs = [] \<and> corr = None)
      \<and> (isFactCheckEnabled s \<longrightarrow> (evs, corr) = getFactCheckCorrection b t)"
proof (cases "isFactCheckEnabled s")
  case True
  obtain evs corr where g: "getFactCheckCorrection b t = (evs, corr)"
    by (cases "getFactCheckCorrection b t")
  have "appended evs = []" "loadingWrites evs = []" "fetched evs = []"
    using factCheck_no_writes [of b t] g by simp_all
  with True g show ?thesis by simp
next
  case False
  then show ?thesis by simp
qed

text \<open>How the \<^verbatim>\<open>try\<close> block of the handler ends, case by case.\<close>

lemma tryBlock_fetch_throws:
  "fetch b p = Inl e \<Longrightarrow> tryBlock b s p = ([Fetch p], Inl e)"
  by (simp add: tryBlock_def)

lemma tryBlock_not_ok:
  "fetch b p = Inr resp \<Longrightarrow> \<not> ok resp \<Longrightarrow> tryBlock b s p = ([Fetch p], Inl (CustomLLMError (status resp)))"
  by (simp add: tryBlock_def)

lemma tryBlock_json_throws:
  "fetch b p = Inr resp \<Longrightarrow> ok resp \<Longrightarrow> json resp = Inl e \<Longrightarrow> tryBlock b s p = ([Fetch p], Inl e)"
  by (simp add: tryBlock_def)

lemma tryBlock_invalid:
  "fetch b p = Inr resp \<Longrightarrow> ok resp \<Longrightarrow> json resp = Inr v \<Longrightarrow> \<not> truthy v \<Longrightarrow>
     tryBlock b s p = ([Fetch p], Inl InvalidResponse)"
  by (simp add: tryBlock_def)

lemma tryBlock_success:
  assumes "fetch b p = Inr resp" "ok resp" "json resp = Inr v" "truthy v"
    and "(if isFactCheckEnabled s then getFactCheckCorrection b (textOf v) else ([], None)) = (evs, corr)"
  shows "tryBlock b s p =
     ([Fetch p] @ evs @ [SetMessages \<lparr>msg_id = dateNow_bot b + 1, msg_text = textOf v,
         sender = Bot, correction = corr, isError = False\<rparr>], Inr ())"
  using assms by (simp add: tryBlock_def Let_def)

lemma tryBlock_shape:
  "\<exists>rest r. tryBlock b s p = (Fetch p # rest, r) \<and> loadingWrites rest = [] \<and> fetched rest = []
      \<and> (case r of Inl e \<Rightarrow> rest = [] | Inr u \<Rightarrow> length (appended rest) = 1)"
proof (cases "fetch b p")
  case (Inl e)
  then show ?thesis by (simp add: tryBlock_fetch_throws)
next
  case (Inr resp)
  show ?thesis
  proof (cases "ok resp")
    case False
    with Inr show ?thesis by (simp add: tryBlock_not_ok)
  next
    case True
    show ?thesis
    proof (cases "json resp")
      case (Inl e)
      with Inr True show ?thesis by (simp add: tryBlock_json_throws)
    next
      case v: (Inr v)
      show ?thesis
      proof (cases "truthy v")
        case False
        with Inr True v show ?thesis by (simp add: tryBlock_invalid)
      next
        case tr: True
        obtain evs corr where
          fc: "(if isFactCheckEnabled s then getFactCheckCorrection b (textOf v) else ([], None)) = (evs, corr)"
          and w: "appended evs = []" "loadingWrites evs = []" "fetched evs = []"
          using factCheck_branch [of s b "textOf v"] by blast
        show ?thesis
          unfolding tryBlock_success [OF Inr True v tr fc]
          by (simp add: w loadingWrites_append fetched_append appended_append)
      qed
    qed
  qed
qed

lemma handleSend_pass:
  assumes "trim (input s) \<noteq> []" and "\<not> isLoading s"
    and "tryBlock b s (buildPrompt (messages s) (isContextEnabled s) (processInput (input s))) = (evs, r)"
  shows "handleSend b s =
     [PreventDefault,
      SetMessages \<lparr>msg_id = dateNow_user b, msg_text = processInput (input s),
               sender = User, correction = None, isError = False\<rparr>,
      SetInput [], SetIsLoading True]
     @ (case r of Inr u \<Rightarrow> evs | Inl e \<Rightarrow> evs @ [SetMessages (errorMessage b)])
     @ [SetIsLoading False]"
  using assms
  by (simp add: handleSend_def handleSendAsync_def catchAll_def finallyDo_def Let_def
        split: sum.splits)

lemma turn_messages:
  assumes "trim (input s) \<noteq> []" and "\<not> isLoading s"
  shows "\<exists>bm. appended (handleSend b s) =
     [\<lparr>msg_id = dateNow_user b, msg_text = processInput (input s),
               sender = User, correction = None, isError = False\<rparr>, bm]"
proof -
  let ?p = "buildPrompt (messages s) (isContextEnabled s) (processInput (input s))"
  obtain rest r where tb: "tryBlock b s ?p = (Fetch ?p # rest, r)"
    and r: "case r of Inl e \<Rightarrow> rest = [] | Inr u \<Rightarrow> length (appended rest) = 1"
    using tryBlock_shape [of b s ?p] by blast
  show ?thesis
  proof (cases r)
    case (Inl e)
    with r show ?thesis
      unfolding handleSend_pass [OF assms tb] by (simp add: appended_append)
  next
    case (Inr u)
    with r obtain bm where "appended rest = [bm]"
      by (cases "appended rest") auto
    with Inr show ?thesis
      unfolding handleSend_pass [OF assms tb] by (simp add: appended_append)
  qed
qed

lemma turn_fetched:
  assumes "trim (input s) \<noteq> []" and "\<not> isLoading s"
  shows "fetched (handleSend b s) = [buildPrompt (messages s) (isContextEnabled s) (processInput (input s))]"
proof -
  let ?p = "buildPrompt (messages s) (isContextEnabled s) (processInput (input s))"
  obtain rest r where tb: "tryBlock b s ?p = (Fetch ?p # rest, r)"
    and f: "fetched rest = []"
    using tryBlock_shape [of b s ?p] by blast
  show ?thesis
    unfolding handleSend_pass [OF assms tb] using f
    by (cases r) (simp_all add: fetched_append)
qed

lemma handleSend_rejected:
  "trim (input s) = [] \<or> isLoading s \<Longrightarrow> handleSend b s = [PreventDefault]"
  by (auto simp add: handleSend_def handleSendAsync_def)

lemma handleSendAsync_fulfils: "snd (handleSendAsync b s) = Inr ()"
  by (simp add: handleSendAsync_def catchAll_def finallyDo_def Let_def
        split: prod.splits sum.splits)

lemma step_keeps_greeting:
  assumes "\<exists>rest. messages s = greeting # rest"
  shows "\<exists>rest. messages (step s a) = greeting # rest"
proof (cases a)
  case (Submit b)
  from assms obtain rest where "messages s = greeting # rest" by blast
  then have "messages (submit b s) = greeting # (rest @ appended (handleSend b s))"
    by (simp add: submit_def messages_run)
  with Submit show ?thesis by simp
qed (use assms in auto)

lemma foldl_step_keeps_greeting:
  "\<exists>rest. messages s = greeting # rest \<Longrightarrow> \<exists>rest. messages (foldl step s as) = greeting # rest"
proof (induction as arbitrary: s)
  case Nil
  then show ?case by simp
next
  case (Cons a as)
  show ?case
    using Cons.IH [OF step_keeps_greeting [OF Cons.prems, of a]] by simp
qed

lemma exec_keeps_greeting: "\<exists>rest. messages (exec as) = greeting # rest"
  unfolding exec_def by (rule foldl_step_keeps_greeting) (simp add: initial_def)

lemma fragments_filter:
  "filter (\<lambda>t. t \<noteq> []) (map (\<lambda>p. textOf (part_text p)) ps)
     = map (\<lambda>p. textOf (part_text p)) (filter (\<lambda>p. truthy (part_text p)) ps)"
  by (induction ps) (auto simp add: truthy_def textOf_def split: option.splits)

lemma trim_Nil: "trim [] = []"
  by (simp add: trim_def)

lemma candidateText_eq:
  "candidateText r =
     (if firstCandidateFragments r = [] then [] else trim (join '' '' (firstCandidateFragments r)))"
  by (simp add: candidateText_def firstCandidateFragments_def fragments_filter Let_def
           split: option.splits list.splits)

lemma groundedResponse_eq:
  "groundedResponse r =
     (if truthy (resp_text r) then trim (textOf (resp_text r))
      else if (\<exists>fc fcs. functionCalls r = Some (fc # fcs)) then
        (if trim (join '' '' (firstCandidateFragments r)) = []
         then ''Unable to complete fact-check due to technical limitations.''
         else trim (join '' '' (firstCandidateFragments r)))
      else ''Unable to verify statement at this time.'')"
proof -
  have fc: "(case functionCalls r of None \<Rightarrow> False | Some fcs \<Rightarrow> length fcs > 0)
              \<longleftrightarrow> (\<exists>fc fcs. functionCalls r = Some (fc # fcs))"
    by (cases "functionCalls r") (auto simp add: neq_Nil_conv)
  show ?thesis
    unfolding groundedResponse_def fc candidateText_eq
    by (simp add: Let_def trim_Nil)
qed

lemma verify_throws:
  assumes "snd (classifyStatementType b t) = FACT" and "generateVerify b t = Inl e"
  shows "getFactCheckCorrection b t =
     ([ClassifyCall t, VerifyCall t], Some ''Fact-check service is currently unavailable.'')"
proof -
  have c: "classifyStatementType b t = ([ClassifyCall t], FACT)"
    using assms(1) by (cases "classifyStatementType b t") (simp add: classifyStatementType_def)
  show ?thesis by (simp add: getFactCheckCorrection_def c assms(2))
qed

lemma demo_guard: "trim (input demo_state) \<noteq> []" "\<not> isLoading demo_state"
  by (simp_all add: demo_state_def initial_def trim_def isSpace_def)

lemma suffix_eq_drop: "suffix h xs \<Longrightarrow> h = drop (length xs - length h) xs"
  by (auto simp add: suffix_def)

lemma long_guard: "trim (input long_state) \<noteq> []" "\<not> isLoading long_state"
  by code_simp+

lemma demo_prompt:
  "buildPrompt (messages demo_state) (isContextEnabled demo_state) (processInput (input demo_state)) =
     ''Previous conversation:\<newline>Hello! Ask me anything. My responses can be fact-checked in real-time.\<newline>\<newline>Current question: the sky is green?''"
  by code_simp

lemma tryBlock_bot_id:
  assumes "tryBlock b s p = (evs, Inr u)"
  shows "\<exists>bm. appended evs = [bm] \<and> msg_id bm = dateNow_bot b + 1"
proof (cases "fetch b p")
  case (Inl e)
  with assms show ?thesis by (simp add: tryBlock_fetch_throws)
next
  case (Inr resp)
  show ?thesis
  proof (cases "ok resp")
    case False
    with Inr assms show ?thesis by (simp add: tryBlock_not_ok)
  next
    case True
    show ?thesis
    proof (cases "json resp")
      case (Inl e)
      with Inr True assms show ?thesis by (simp add: tryBlock_json_throws)
    next
      case v: (Inr v)
      show ?thesis
      proof (cases "truthy v")
        case False
        with Inr True v assms show ?thesis by (simp add: tryBlock_invalid)
      next
        case tr: True
        obtain es corr where
          fc: "(if isFactCheckEnabled s then getFactCheckCorrection b (textOf v) else ([], None)) = (es, corr)"
          and w: "appended es = []"
          using factCheck_branch [of s b "textOf v"] by blast
        from assms show ?thesis
          unfolding tryBlock_success [OF Inr True v tr fc]
          by (auto simp add: w appended_append)
      qed
    qed
  qed
qed

lemma turn_ids:
  assumes "trim (input s) \<noteq> []" and "\<not> isLoading s"
  shows "map msg_id (messages (submit b s)) =
           map msg_id (messages s) @ [dateNow_user b, dateNow_bot b + 1]"
proof -
  let ?p = "buildPrompt (messages s) (isContextEnabled s) (processInput (input s))"
  obtain evs r where tb: "tryBlock b s ?p = (evs, r)" by (cases "tryBlock b s ?p")
  show ?thesis
  proof (cases r)
    case (Inl e)
    from tryBlock_shape [of b s ?p] tb Inl have "evs = [Fetch ?p]" by auto
    with Inl show ?thesis
      unfolding submit_def messages_run handleSend_pass [OF assms tb]
      by (simp add: errorMessage_def)
  next
    case (Inr u)
    with tb tryBlock_bot_id obtain bm where "appended evs = [bm]" "msg_id bm = dateNow_bot b + 1"
      by blast
    with Inr show ?thesis
      unfolding submit_def messages_run handleSend_pass [OF assms tb]
      by (simp add: appended_append)
  qed
qed

subsection \<open>The claims\<close>

text \<open>
  Claim C1. Every call of the handler that passes the guard (the trimmed input is not
  empty and no turn is in flight) writes \<^verbatim>\<open>isLoading = true\<close> before its first backend
  call and \<^verbatim>\<open>isLoading = false\<close> as its last effect, whatever the backends answer or
  throw: a successful turn, a failed generation and every other exception raised in the
  \<^verbatim>\<open>try\<close> block end the same way. The state it leaves is not loading, and the promise
  of the handler is fulfilled: no exception leaves it.
\<close>

theorem submit_returns_to_idle:
  assumes "trim (input s) \<noteq> []" and "\<not> isLoading s"
  shows "(\<exists>um body. handleSend b s =
            [PreventDefault, SetMessages um, SetInput [], SetIsLoading True] @ body @ [SetIsLoading False]
          \<and> loadingWrites body = []
          \<and> isLoading (run s [PreventDefault, SetMessages um, SetInput [], SetIsLoading True])
          \<and> \<not> isLoading (submit b s))
       \<and> snd (handleSendAsync b s) = Inr ()"
proof -
  let ?p = "buildPrompt (messages s) (isContextEnabled s) (processInput (input s))"
  obtain rest r where tb: "tryBlock b s ?p = (Fetch ?p # rest, r)" and rest: "loadingWrites rest = []"
    using tryBlock_shape [of b s ?p] by blast
  let ?um = "\<lparr>msg_id = dateNow_user b, msg_text = processInput (input s),
               sender = User, correction = None, isError = False\<rparr>"
  let ?body = "(case r of Inr u \<Rightarrow> Fetch ?p # rest | Inl e \<Rightarrow> (Fetch ?p # rest) @ [SetMessages (errorMessage b)])"
  have shape: "handleSend b s = [PreventDefault, SetMessages ?um, SetInput [], SetIsLoading True] @ ?body @ [SetIsLoading False]"
    by (rule handleSend_pass [OF assms tb])
  have body: "loadingWrites ?body = []"
    using rest by (cases r) (simp_all add: loadingWrites_append)
  have mid: "isLoading (run s [PreventDefault, SetMessages ?um, SetInput [], SetIsLoading True])"
    by (simp add: run_def)
  have "loadingWrites (handleSend b s) = [True, False]"
    unfolding shape by (simp add: loadingWrites_append body)
  then have fin: "\<not> isLoading (submit b s)"
    unfolding submit_def by (simp add: isLoading_run)
  have "snd (handleSendAsync b s) = Inr ()" by (rule handleSendAsync_fulfils)
  with shape body mid fin show ?thesis by blast
qed

theorem submit_returns_to_idle_witness:
  "trim (input demo_state) \<noteq> [] \<and> \<not> isLoading demo_state
   \<and> \<not> isLoading (submit demo_backend demo_state)
   \<and> snd (handleSendAsync demo_backend demo_state) = Inr ()
   \<and> \<not> isLoading (submit failing_backend demo_state)
   \<and> snd (handleSendAsync failing_backend demo_state) = Inr ()
   \<and> \<not> isLoading (submit offline_backend demo_state)
   \<and> snd (handleSendAsync offline_backend demo_state) = Inr ()
   \<and> fst (tryBlock offline_backend demo_state
        (buildPrompt (messages demo_state) (isContextEnabled demo_state)
           (processInput (input demo_state)))) \<noteq> []
   \<and> snd (tryBlock offline_backend demo_state
        (buildPrompt (messages demo_state) (isContextEnabled demo_state)
           (processInput (input demo_state)))) = Inl NetworkError"
proof -
  have t: "tryBlock offline_backend demo_state
        (buildPrompt (messages demo_state) (isContextEnabled demo_state)
           (processInput (input demo_state))) =
        ([Fetch (buildPrompt (messages demo_state) (isContextEnabled demo_state)
           (processInput (input demo_state)))], Inl NetworkError)"
    by (rule tryBlock_fetch_throws) (simp add: offline_backend_def)
  from submit_returns_to_idle [OF demo_guard, of demo_backend]
  have a: "\<not> isLoading (submit demo_backend demo_state)"
    "snd (handleSendAsync demo_backend demo_state) = Inr ()"
    by blast+
  from submit_returns_to_idle [OF demo_guard, of failing_backend]
  have b: "\<not> isLoading (submit failing_backend demo_state)"
    "snd (handleSendAsync failing_backend demo_state) = Inr ()"
    by blast+
  from submit_returns_to_idle [OF demo_guard, of offline_backend]
  have c: "\<not> isLoading (submit offline_backend demo_state)"
    "snd (handleSendAsync offline_backend demo_state) = Inr ()"
    by blast+
  from demo_guard a b c show ?thesis unfolding t by simp
qed

text \<open>
  Claim C2. A call made while a turn is in flight, or with an input that is empty or
  only white space (every character is one of those \<^verbatim>\<open>trim\<close> strips), does nothing
  beyond \<^verbatim>\<open>e.preventDefault()\<close>: no message is appended, no backend is called, and the
  state (the loading flag included) is what it was.
\<close>

theorem rejected_submit_has_no_effect:
  assumes "isLoading s
     \<or> set (input s) \<subseteq> set [CHR 0x09, CHR 0x0A, CHR 0x0B, CHR 0x0C, CHR 0x0D, CHR 0x20, CHR 0xA0]"
  shows "handleSend b s = [PreventDefault]
       \<and> appended (handleSend b s) = []
       \<and> filter isBackendCall (handleSend b s) = []
       \<and> submit b s = s"
proof -
  from assms have "trim (input s) = [] \<or> isLoading s"
    using blank_input [of "input s"] by (auto simp add: trim_Nil_iff)
  then have "handleSend b s = [PreventDefault]" by (rule handleSend_rejected)
  then show ?thesis by (simp add: submit_def run_def)
qed

theorem rejected_submit_has_no_effect_witness:
  "isLoading loading_state
   \<and> input blank_state = ''   ''
   \<and> input nbsp_state = [CHR 0xA0, CHR 0x09, CHR 0x20, CHR 0x0A]
   \<and> handleSend demo_backend loading_state = [PreventDefault]
   \<and> submit demo_backend loading_state = loading_state
   \<and> handleSend demo_backend blank_state = [PreventDefault]
   \<and> submit demo_backend blank_state = blank_state
   \<and> handleSend demo_backend nbsp_state = [PreventDefault]
   \<and> submit demo_backend nbsp_state = nbsp_state"
proof -
  let ?ws = "set [CHR 0x09, CHR 0x0A, CHR 0x0B, CHR 0x0C, CHR 0x0D, CHR 0x20, CHR 0xA0]"
  have l: "isLoading loading_state" by (simp add: loading_state_def)
  have b: "input blank_state = ''   ''" by (simp add: blank_state_def)
  have n: "input nbsp_state = [CHR 0xA0, CHR 0x09, CHR 0x20, CHR 0x0A]"
    by (simp add: nbsp_state_def)
  from l have l': "isLoading loading_state \<or> set (input loading_state) \<subseteq> ?ws" ..
  have "set (input blank_state) \<subseteq> ?ws" unfolding b by simp
  then have b': "isLoading blank_state \<or> set (input blank_state) \<subseteq> ?ws" ..
  have "set (input nbsp_state) \<subseteq> ?ws" unfolding n by simp
  then have n': "isLoading nbsp_state \<or> set (input nbsp_state) \<subseteq> ?ws" ..
  from rejected_submit_has_no_effect [OF l', of demo_backend]
       rejected_submit_has_no_effect [OF b', of demo_backend]
       rejected_submit_has_no_effect [OF n', of demo_backend] l b n
  show ?thesis by blast
qed

text \<open>
  Claim C3. In a verification run (the statement was classified as a fact and the
  verification call returned a response), the result is \<^verbatim>\<open>null\<close> when the extracted
  text equals \<^verbatim>\<open>CORRECT\<close> ignoring case, or contains \<^verbatim>\<open>the statement is correct\<close> or
  \<^verbatim>\<open>this is accurate\<close> ignoring case; for every other extracted text the result is that
  text, unchanged.
\<close>

theorem verify_outcome:
  assumes "snd (classifyStatementType b t) = FACT" and "generateVerify b t = Inr r"
  shows "snd (getFactCheckCorrection b t) =
     (if equalsIgnoringCase (groundedResponse r) ''CORRECT''
         \<or> containsIgnoringCase (groundedResponse r) ''the statement is correct''
         \<or> containsIgnoringCase (groundedResponse r) ''this is accurate''
      then None else Some (groundedResponse r))"
proof -
  obtain evs where c: "classifyStatementType b t = (evs, FACT)"
    using assms(1) by (cases "classifyStatementType b t") simp
  have "decideCorrection g =
     (if equalsIgnoringCase g ''CORRECT''
         \<or> containsIgnoringCase g ''the statement is correct''
         \<or> containsIgnoringCase g ''this is accurate''
      then None else Some g)" for g
    unfolding decideCorrection_def
      toUpperCase_eq_iff [OF phrase_letters(3)]
      includes_lower_iff [OF phrase_letters(1)]
      includes_lower_iff [OF phrase_letters(2)]
    by (rule refl)
  then show ?thesis
    by (simp add: getFactCheckCorrection_def c assms(2))
qed

theorem verify_outcome_witness:
  "snd (getFactCheckCorrection demo_backend ''The sky is green due to scattering.'')
       = Some ''The sky is blue, not green, due to Rayleigh scattering.''
   \<and> snd (getFactCheckCorrection confirming_backend ''The sky is green due to scattering.'') = None
   \<and> groundedResponse (textOnly ''correct\<newline>'') = ''correct''
   \<and> snd (getFactCheckCorrection lowercase_backend ''The sky is green due to scattering.'') = None
   \<and> snd (getFactCheckCorrection mixed_case_backend ''The sky is green due to scattering.'') = None"
proof -
  let ?t = "''The sky is green due to scattering.''"
  let ?a = "textOnly ''The sky is blue, not green, due to Rayleigh scattering.''"
  let ?b = "textOnly ''The statement is correct because air scatters blue light.''"
  let ?c = "textOnly ''correct\<newline>''"
  let ?d = "textOnly ''Yes, This Is ACCURATE: the sky scatters light.''"
  have c1: "snd (classifyStatementType demo_backend ?t) = FACT" by code_simp
  have c2: "snd (classifyStatementType confirming_backend ?t) = FACT" by code_simp
  have c3: "snd (classifyStatementType lowercase_backend ?t) = FACT" by code_simp
  have c4: "snd (classifyStatementType mixed_case_backend ?t) = FACT" by code_simp
  have v1: "generateVerify demo_backend ?t = Inr ?a" by (simp add: demo_backend_def)
  have v2: "generateVerify confirming_backend ?t = Inr ?b" by (simp add: confirming_backend_def)
  have v3: "generateVerify lowercase_backend ?t = Inr ?c" by (simp add: lowercase_backend_def)
  have v4: "generateVerify mixed_case_backend ?t = Inr ?d" by (simp add: mixed_case_backend_def)
  have g: "groundedResponse ?c = ''correct''" by code_simp
  have r1: "(if equalsIgnoringCase (groundedResponse ?a) ''CORRECT''
         \<or> containsIgnoringCase (groundedResponse ?a) ''the statement is correct''
         \<or> containsIgnoringCase (groundedResponse ?a) ''this is accurate''
      then None else Some (groundedResponse ?a))
      = Some ''The sky is blue, not green, due to Rayleigh scattering.''"
    by code_simp
  have r2: "(if equalsIgnoringCase (groundedResponse ?b) ''CORRECT''
         \<or> containsIgnoringCase (groundedResponse ?b) ''the statement is correct''
         \<or> containsIgnoringCase (groundedResponse ?b) ''this is accurate''
      then None else Some (groundedResponse ?b)) = None"
    by code_simp
  have r3: "(if equalsIgnoringCase (groundedResponse ?c) ''CORRECT''
         \<or> containsIgnoringCase (groundedResponse ?c) ''the statement is correct''
         \<or> containsIgnoringCase (groundedResponse ?c) ''this is accurate''
      then None else Some (groundedResponse ?c)) = None"
    by code_simp
  have r4: "(if equalsIgnoringCase (groundedResponse ?d) ''CORRECT''
         \<or> containsIgnoringCase (groundedResponse ?d) ''the statement is correct''
         \<or> containsIgnoringCase (groundedResponse ?d) ''this is accurate''
      then None else Some (groundedResponse ?d)) = None"
    by code_simp
  from verify_outcome [OF c1 v1] verify_outcome [OF c2 v2]
       verify_outcome [OF c3 v3] verify_outcome [OF c4 v4] g r1 r2 r3 r4
  show ?thesis by simp
qed

text \<open>
  Claim C4, as the specification words it, has the text fragments of all candidates
  joined with spaces. The handler reads the first candidate only, trims what it joined,
  and falls back when the result is empty. On a response without direct text, with one
  function call, whose first candidate holds a line break and whose second candidate
  holds a sentence, the specification's wording extracts the sentence and the handler
  answers with the fallback.
\<close>

theorem extraction_scans_all_candidates_counterexample:
  "spec_fragments second_candidate_response = [''\<newline>'', ''The capital is Paris.'']
   \<and> spec_extractedText second_candidate_response = ''\<newline> The capital is Paris.''
   \<and> groundedResponse second_candidate_response =
       ''Unable to complete fact-check due to technical limitations.''
   \<and> groundedResponse second_candidate_response \<noteq> spec_extractedText second_candidate_response"
  by code_simp

text \<open>
  Claim C4, amended. The extracted text is: the direct text, trimmed, when the response
  has a non-empty one; otherwise, when the response reports a function call, the
  non-empty texts of the parts of the first candidate, joined with single spaces and
  trimmed, and \<^verbatim>\<open>Unable to complete fact-check due to technical limitations.\<close> when that
  is empty; otherwise \<^verbatim>\<open>Unable to verify statement at this time.\<close> When the
  verification call throws, the correction is
  \<^verbatim>\<open>Fact-check service is currently unavailable.\<close> and the turn completes as a
  successful one: the bot's message carries the generated text and that correction, and
  the loading flag is cleared.
\<close>

theorem extraction_priority:
  "groundedResponse r =
     (if truthy (resp_text r) then trim (textOf (resp_text r))
      else if (\<exists>fc fcs. functionCalls r = Some (fc # fcs)) then
        (if trim (join '' '' (firstCandidateFragments r)) = []
         then ''Unable to complete fact-check due to technical limitations.''
         else trim (join '' '' (firstCandidateFragments r)))
      else ''Unable to verify statement at this time.'')
   \<and> (trim (input s) \<noteq> [] \<and> \<not> isLoading s \<and> isFactCheckEnabled s
        \<and> fetch b (buildPrompt (messages s) (isContextEnabled s) (processInput (input s))) = Inr resp
        \<and> ok resp \<and> json resp = Inr (Some t) \<and> t \<noteq> []
        \<and> snd (classifyStatementType b t) = FACT \<and> generateVerify b t = Inl e
      \<longrightarrow> snd (getFactCheckCorrection b t) = Some ''Fact-check service is currently unavailable.''
        \<and> messages (submit b s) = messages s @
           [\<lparr>msg_id = dateNow_user b, msg_text = processInput (input s),
               sender = User, correction = None, isError = False\<rparr>,
            \<lparr>msg_id = dateNow_bot b + 1, msg_text = t, sender = Bot,
               correction = Some ''Fact-check service is currently unavailable.'', isError = False\<rparr>]
        \<and> \<not> isLoading (submit b s))"
proof (intro conjI impI)
  show "groundedResponse r =
     (if truthy (resp_text r) then trim (textOf (resp_text r))
      else if (\<exists>fc fcs. functionCalls r = Some (fc # fcs)) then
        (if trim (join '' '' (firstCandidateFragments r)) = []
         then ''Unable to complete fact-check due to technical limitations.''
         else trim (join '' '' (firstCandidateFragments r)))
      else ''Unable to verify statement at this time.'')"
    by (rule groundedResponse_eq)
next
  assume a: "trim (input s) \<noteq> [] \<and> \<not> isLoading s \<and> isFactCheckEnabled s
        \<and> fetch b (buildPrompt (messages s) (isContextEnabled s) (processInput (input s))) = Inr resp
        \<and> ok resp \<and> json resp = Inr (Some t) \<and> t \<noteq> []
        \<and> snd (classifyStatementType b t) = FACT \<and> generateVerify b t = Inl e"
  let ?p = "buildPrompt (messages s) (isContextEnabled s) (processInput (input s))"
  from a have g: "trim (input s) \<noteq> []" "\<not> isLoading s" by simp_all
  from a have f: "fetch b ?p = Inr resp" "ok resp" "json resp = Inr (Some t)" by simp_all
  from a have tr: "truthy (Some t)" by (simp add: truthy_def)
  from a have v: "getFactCheckCorrection b t =
     ([ClassifyCall t, VerifyCall t], Some ''Fact-check service is currently unavailable.'')"
    using verify_throws by blast
  from a v have fc: "(if isFactCheckEnabled s then getFactCheckCorrection b (textOf (Some t)) else ([], None))
      = ([ClassifyCall t, VerifyCall t], Some ''Fact-check service is currently unavailable.'')"
    by (simp add: textOf_def)
  note tb = tryBlock_success [OF f tr fc]
  show "snd (getFactCheckCorrection b t) = Some ''Fact-check service is currently unavailable.''"
    by (simp add: v)
  show "messages (submit b s) = messages s @
           [\<lparr>msg_id = dateNow_user b, msg_text = processInput (input s),
               sender = User, correction = None, isError = False\<rparr>,
            \<lparr>msg_id = dateNow_bot b + 1, msg_text = t, sender = Bot,
               correction = Some ''Fact-check service is currently unavailable.'', isError = False\<rparr>]"
    unfolding submit_def messages_run handleSend_pass [OF g tb]
    by (simp add: textOf_def)
  show "\<not> isLoading (submit b s)"
    unfolding submit_def isLoading_run handleSend_pass [OF g tb]
    by simp
qed

theorem extraction_priority_witness:
  "groundedResponse second_candidate_response =
     ''Unable to complete fact-check due to technical limitations.''
   \<and> groundedResponse (textOnly '' CORRECT '') = ''CORRECT''
   \<and> groundedResponse \<lparr>resp_text = Some [], functionCalls = None, candidates = None\<rparr> =
     ''Unable to verify statement at this time.''
   \<and> messages (submit unavailable_backend demo_state) =
       [greeting,
        \<lparr>msg_id = 1700000000000, msg_text = ''the sky is green?'',
           sender = User, correction = None, isError = False\<rparr>,
        \<lparr>msg_id = 1700000002501, msg_text = ''The sky is green due to scattering.'',
           sender = Bot, correction = Some ''Fact-check service is currently unavailable.'',
           isError = False\<rparr>]
   \<and> \<not> isLoading (submit unavailable_backend demo_state)"
proof -
  let ?t = "''The sky is green due to scattering.''"
  let ?p = "buildPrompt (messages demo_state) (isContextEnabled demo_state) (processInput (input demo_state))"
  let ?r = "\<lparr>ok = True, status = 200, json = Inr (Some ?t)\<rparr>"
  have a1: "\<not> truthy (resp_text second_candidate_response)" by code_simp
  have a2: "\<exists>fc fcs. functionCalls second_candidate_response = Some (fc # fcs)"
    by (simp add: second_candidate_response_def)
  have a3: "trim (join '' '' (firstCandidateFragments second_candidate_response)) = []"
    by code_simp
  have b1: "truthy (resp_text (textOnly '' CORRECT ''))" by code_simp
  have b2: "trim (textOf (resp_text (textOnly '' CORRECT ''))) = ''CORRECT''" by code_simp
  have c1: "\<not> truthy (resp_text \<lparr>resp_text = Some [], functionCalls = None, candidates = None\<rparr>)"
    by (simp add: truthy_def)
  have h: "trim (input demo_state) \<noteq> [] \<and> \<not> isLoading demo_state \<and> isFactCheckEnabled demo_state
        \<and> fetch unavailable_backend ?p = Inr ?r
        \<and> ok ?r \<and> json ?r = Inr (Some ?t) \<and> ?t \<noteq> []
        \<and> snd (classifyStatementType unavailable_backend ?t) = FACT
        \<and> generateVerify unavailable_backend ?t = Inl ApiError"
  proof -
    have "snd (classifyStatementType unavailable_backend ?t) = FACT" by code_simp
    moreover have "isFactCheckEnabled demo_state" by (simp add: demo_state_def initial_def)
    moreover have "fetch unavailable_backend ?p = Inr ?r"
      by (simp add: unavailable_backend_def demo_backend_def)
    moreover have "generateVerify unavailable_backend ?t = Inl ApiError"
      by (simp add: unavailable_backend_def)
    ultimately show ?thesis using demo_guard by simp
  qed
  have q: "processInput (input demo_state) = ''the sky is green?''" by code_simp
  have m: "messages demo_state = [greeting]" by (simp add: demo_state_def initial_def)
  have d: "dateNow_user unavailable_backend = 1700000000000" "dateNow_bot unavailable_backend = 1700000002500"
    by (simp_all add: unavailable_backend_def demo_backend_def)
  from extraction_priority [of second_candidate_response demo_state unavailable_backend ?r ?t ApiError]
    a1 a2 a3
  have w1: "groundedResponse second_candidate_response =
     ''Unable to complete fact-check due to technical limitations.''" by simp
  from extraction_priority [of "textOnly '' CORRECT ''" demo_state unavailable_backend ?r ?t ApiError]
    b1 b2
  have w2: "groundedResponse (textOnly '' CORRECT '') = ''CORRECT''" by simp
  from extraction_priority [of "\<lparr>resp_text = Some [], functionCalls = None, candidates = None\<rparr>"
      demo_state unavailable_backend ?r ?t ApiError] c1
  have w3: "groundedResponse \<lparr>resp_text = Some [], functionCalls = None, candidates = None\<rparr> =
     ''Unable to verify statement at this time.''" by simp
  from extraction_priority [of second_candidate_response demo_state unavailable_backend ?r ?t ApiError] h
  have w4: "messages (submit unavailable_backend demo_state) = messages demo_state @
           [\<lparr>msg_id = dateNow_user unavailable_backend, msg_text = processInput (input demo_state),
               sender = User, correction = None, isError = False\<rparr>,
            \<lparr>msg_id = dateNow_bot unavailable_backend + 1, msg_text = ?t, sender = Bot,
               correction = Some ''Fact-check service is currently unavailable.'', isError = False\<rparr>]
        \<and> \<not> isLoading (submit unavailable_backend demo_state)"
    by blast
  from w1 w2 w3 w4 q m d show ?thesis by simp
qed

text \<open>
  Claim C5. The classifier answers \<^verbatim>\<open>FACT\<close> exactly when the call returned a response
  whose trimmed text contains \<^verbatim>\<open>FACT\<close> ignoring case (which is what containing it after
  upper-casing comes to); in every other case it answers \<^verbatim>\<open>OPINION\<close>, in particular
  whenever the call throws.
\<close>

theorem classify_fact_iff:
  "(snd (classifyStatementType b t) = FACT \<longleftrightarrow>
      (\<exists>r x. generateClassify b t = Inr r \<and> resp_text r = Some x
          \<and> containsIgnoringCase (trim x) ''FACT''))
   \<and> (snd (classifyStatementType b t) \<noteq> FACT \<longrightarrow> snd (classifyStatementType b t) = OPINION)
   \<and> (\<forall>e. generateClassify b t = Inl e \<longrightarrow> snd (classifyStatementType b t) = OPINION)"
proof (intro conjI allI impI)
  have i: "includes_str (toUpperCase y) (codes ''FACT'') \<longleftrightarrow> containsIgnoringCase y ''FACT''" for y
    by (rule includes_upper_iff [OF phrase_letters(4)]) simp
  show "snd (classifyStatementType b t) = FACT \<longleftrightarrow>
      (\<exists>r x. generateClassify b t = Inr r \<and> resp_text r = Some x
          \<and> containsIgnoringCase (trim x) ''FACT'')"
    by (cases "generateClassify b t")
       (auto simp add: classifyStatementType_def classifyBody_def Let_def i
             split: option.splits)
next
  assume "snd (classifyStatementType b t) \<noteq> FACT"
  then show "snd (classifyStatementType b t) = OPINION"
    by (cases "snd (classifyStatementType b t)") simp_all
next
  fix e assume "generateClassify b t = Inl e"
  then show "snd (classifyStatementType b t) = OPINION"
    by (simp add: classifyStatementType_def classifyBody_def)
qed

theorem classify_fact_iff_witness:
  "snd (classifyStatementType demo_backend ''The sky is green due to scattering.'') = FACT
   \<and> generateClassify lowercase_backend ''The sky is green due to scattering.''
       = Inr (textOnly '' it is a fact.\<newline>'')
   \<and> snd (classifyStatementType lowercase_backend ''The sky is green due to scattering.'') = FACT
   \<and> snd (classifyStatementType mixed_case_backend ''The sky is green due to scattering.'') = FACT
   \<and> snd (classifyStatementType opinion_backend ''The sky is green due to scattering.'') = OPINION
   \<and> snd (classifyStatementType offline_backend ''The sky is green due to scattering.'') = OPINION"
proof -
  let ?t = "''The sky is green due to scattering.''"
  have g1: "generateClassify demo_backend ?t = Inr (textOnly ''FACT'')"
    by (simp add: demo_backend_def)
  have g2: "generateClassify lowercase_backend ?t = Inr (textOnly '' it is a fact.\<newline>'')"
    by (simp add: lowercase_backend_def)
  have g3: "generateClassify mixed_case_backend ?t = Inr (textOnly ''Fact'')"
    by (simp add: mixed_case_backend_def)
  have g4: "generateClassify opinion_backend ?t = Inr (textOnly ''Opinion'')"
    by (simp add: opinion_backend_def)
  have g5: "generateClassify offline_backend ?t = Inl ApiError"
    by (simp add: offline_backend_def)
  have x: "resp_text (textOnly y) = Some y" for y by (simp add: textOnly_def)
  have i1: "containsIgnoringCase (trim ''FACT'') ''FACT''" by code_simp
  have i2: "containsIgnoringCase (trim '' it is a fact.\<newline>'') ''FACT''" by code_simp
  have i3: "containsIgnoringCase (trim ''Fact'') ''FACT''" by code_simp
  have i4: "\<not> containsIgnoringCase (trim ''Opinion'') ''FACT''" by code_simp
  from classify_fact_iff [of demo_backend ?t] g1 x i1
  have w1: "snd (classifyStatementType demo_backend ?t) = FACT" by blast
  from classify_fact_iff [of lowercase_backend ?t] g2 x i2
  have w2: "snd (classifyStatementType lowercase_backend ?t) = FACT" by blast
  from classify_fact_iff [of mixed_case_backend ?t] g3 x i3
  have w3: "snd (classifyStatementType mixed_case_backend ?t) = FACT" by blast
  from classify_fact_iff [of opinion_backend ?t] g4 x i4
  have w4: "snd (classifyStatementType opinion_backend ?t) = OPINION" by auto
  from classify_fact_iff [of offline_backend ?t] g5
  have w5: "snd (classifyStatementType offline_backend ?t) = OPINION" by blast
  from w1 g2 w2 w3 w4 w5 show ?thesis by simp
qed

text \<open>
  Claim C6. In a turn with the context toggle on, the prompt sent to the generation
  endpoint is \<^verbatim>\<open>Previous conversation:\<close> and a line break, then the texts of the last
  four messages of the history (all of them when there are fewer) in order and separated
  by a blank line, then a blank line, \<^verbatim>\<open>Current question: \<close> and the normalised
  input. With the toggle off the prompt is the normalised input alone.
\<close>

theorem prompt_of_turn:
  assumes "trim (input s) \<noteq> []" and "\<not> isLoading s"
  shows "\<exists>h. suffix h (messages s) \<and> length h = min 4 (length (messages s))
       \<and> fetched (handleSend b s) =
           [if isContextEnabled s
            then ''Previous conversation:\<newline>'' @ join ''\<newline>\<newline>'' (map msg_text h)
                   @ ''\<newline>\<newline>Current question: '' @ processInput (input s)
            else processInput (input s)]"
proof -
  have "fetched (handleSend b s) =
           [if isContextEnabled s
            then ''Previous conversation:\<newline>'' @ join ''\<newline>\<newline>'' (map msg_text (slice_last 4 (messages s)))
                   @ ''\<newline>\<newline>Current question: '' @ processInput (input s)
            else processInput (input s)]"
    unfolding turn_fetched [OF assms] by (simp add: buildPrompt_def Let_def)
  with slice_last_suffix [of 4 "messages s"] slice_last_length [of 4 "messages s"]
  show ?thesis by blast
qed

theorem prompt_of_turn_witness:
  "trim (input long_state) \<noteq> [] \<and> \<not> isLoading long_state
   \<and> length (messages long_state) = 5 \<and> isContextEnabled long_state
   \<and> fetched (handleSend demo_backend long_state) =
       [''Previous conversation:\<newline>one?\<newline>\<newline>The sky is green due to scattering.\<newline>\<newline>two?\<newline>\<newline>The sky is green due to scattering.\<newline>\<newline>Current question: three?'']
   \<and> fetched (handleSend demo_backend (long_state\<lparr>isContextEnabled := False\<rparr>)) = [''three?'']"
proof -
  have len: "length (messages long_state) = 5" by code_simp
  have ctx: "isContextEnabled long_state" by code_simp
  have q: "processInput (input long_state) = ''three?''" by code_simp
  have w: "map msg_text (drop 1 (messages long_state)) =
      [''one?'', ''The sky is green due to scattering.'', ''two?'', ''The sky is green due to scattering.'']"
    by code_simp
  from prompt_of_turn [OF long_guard, of demo_backend] obtain h where
    h: "suffix h (messages long_state)" "length h = min 4 (length (messages long_state))"
    and f: "fetched (handleSend demo_backend long_state) =
           [if isContextEnabled long_state
            then ''Previous conversation:\<newline>'' @ join ''\<newline>\<newline>'' (map msg_text h)
                   @ ''\<newline>\<newline>Current question: '' @ processInput (input long_state)
            else processInput (input long_state)]"
    by blast
  from suffix_eq_drop [OF h(1)] h(2) len have "h = drop 1 (messages long_state)" by simp
  with f ctx q w have on: "fetched (handleSend demo_backend long_state) =
       [''Previous conversation:\<newline>one?\<newline>\<newline>The sky is green due to scattering.\<newline>\<newline>two?\<newline>\<newline>The sky is green due to scattering.\<newline>\<newline>Current question: three?'']"
    by simp
  have g': "trim (input (long_state\<lparr>isContextEnabled := False\<rparr>)) \<noteq> []"
       "\<not> isLoading (long_state\<lparr>isContextEnabled := False\<rparr>)"
    using long_guard by simp_all
  from prompt_of_turn [OF g', of demo_backend] q
  have off: "fetched (handleSend demo_backend (long_state\<lparr>isContextEnabled := False\<rparr>)) = [''three?'']"
    by auto
  from long_guard len ctx on off show ?thesis by simp
qed

text \<open>
  Claim C7. When the generation endpoint answers with a status that is not a success, or
  with a success whose payload has no \<^verbatim>\<open>response\<close> field or an empty one, the turn adds
  to the conversation the user's message and exactly one bot message, which carries the
  fixed apology, \<^verbatim>\<open>isError = true\<close> and no correction; the turn makes no
  classification call and no verification call.
\<close>

theorem generation_failure_appends_apology:
  assumes "trim (input s) \<noteq> []" and "\<not> isLoading s"
    and "fetch b (buildPrompt (messages s) (isContextEnabled s) (processInput (input s))) = Inr resp"
    and "\<not> ok resp \<or> json resp = Inr None \<or> json resp = Inr (Some [])"
  shows "messages (submit b s) = messages s @
           [\<lparr>msg_id = dateNow_user b, msg_text = processInput (input s),
               sender = User, correction = None, isError = False\<rparr>,
            \<lparr>msg_id = dateNow_bot b + 1,
               msg_text = ''Sorry, I'm having trouble connecting. Please try again later.'',
               sender = Bot, correction = None, isError = True\<rparr>]
       \<and> filter isFactCheckCall (handleSend b s) = []"
proof -
  let ?p = "buildPrompt (messages s) (isContextEnabled s) (processInput (input s))"
  have "\<exists>e. tryBlock b s ?p = ([Fetch ?p], Inl e)"
  proof (cases "ok resp")
    case False
    then show ?thesis using tryBlock_not_ok [OF assms(3)] by blast
  next
    case True
    with assms(4) obtain v where v: "json resp = Inr v" "\<not> truthy v"
      by (auto simp add: truthy_def)
    show ?thesis using tryBlock_invalid [OF assms(3) True v] by blast
  qed
  then obtain e where tb: "tryBlock b s ?p = ([Fetch ?p], Inl e)" by blast
  show ?thesis
    unfolding submit_def messages_run handleSend_pass [OF assms(1,2) tb]
    by (simp add: errorMessage_def)
qed

theorem generation_failure_appends_apology_witness:
  "trim (input demo_state) \<noteq> [] \<and> \<not> isLoading demo_state
   \<and> messages (submit failing_backend demo_state) =
       [greeting,
        \<lparr>msg_id = 1700000000000, msg_text = ''the sky is green?'',
           sender = User, correction = None, isError = False\<rparr>,
        \<lparr>msg_id = 1700000002501,
           msg_text = ''Sorry, I'm having trouble connecting. Please try again later.'',
           sender = Bot, correction = None, isError = True\<rparr>]
   \<and> filter isFactCheckCall (handleSend failing_backend demo_state) = []
   \<and> messages (submit empty_payload_backend demo_state) = messages (submit failing_backend demo_state)"
proof -
  let ?p = "buildPrompt (messages demo_state) (isContextEnabled demo_state) (processInput (input demo_state))"
  let ?r1 = "\<lparr>ok = False, status = 500, json = Inl SyntaxError\<rparr>"
  let ?r2 = "\<lparr>ok = True, status = 200, json = Inr (Some [])\<rparr>"
  have f1: "fetch failing_backend ?p = Inr ?r1"
    by (simp add: failing_backend_def)
  have f2: "fetch empty_payload_backend ?p = Inr ?r2"
    by (simp add: empty_payload_backend_def)
  have c1: "\<not> ok ?r1 \<or> json ?r1 = Inr None \<or> json ?r1 = Inr (Some [])" by simp
  have c2: "\<not> ok ?r2 \<or> json ?r2 = Inr None \<or> json ?r2 = Inr (Some [])" by simp
  have q: "processInput (input demo_state) = ''the sky is green?''" by code_simp
  have m: "messages demo_state = [greeting]" by (simp add: demo_state_def initial_def)
  have d: "dateNow_user failing_backend = 1700000000000" "dateNow_bot failing_backend = 1700000002500"
    "dateNow_user empty_payload_backend = 1700000000000" "dateNow_bot empty_payload_backend = 1700000002500"
    by (simp_all add: failing_backend_def empty_payload_backend_def demo_backend_def)
  from generation_failure_appends_apology [OF demo_guard f1 c1]
       generation_failure_appends_apology [OF demo_guard f2 c2]
       demo_guard q m d
  show ?thesis by simp
qed

text \<open>
  Claim C8. With the fact-check toggle off, a turn whose generation succeeds appends a
  bot message with the generated text and no correction, and makes neither a
  classification call nor a verification call.
\<close>

theorem no_fact_check_when_disabled:
  assumes "trim (input s) \<noteq> []" and "\<not> isLoading s"
    and "\<not> isFactCheckEnabled s"
    and "fetch b (buildPrompt (messages s) (isContextEnabled s) (processInput (input s))) = Inr resp"
    and "ok resp" and "json resp = Inr (Some t)" and "t \<noteq> []"
  shows "messages (submit b s) = messages s @
           [\<lparr>msg_id = dateNow_user b, msg_text = processInput (input s),
               sender = User, correction = None, isError = False\<rparr>,
            \<lparr>msg_id = dateNow_bot b + 1, msg_text = t,
               sender = Bot, correction = None, isError = False\<rparr>]
       \<and> filter isFactCheckCall (handleSend b s) = []"
proof -
  let ?p = "buildPrompt (messages s) (isContextEnabled s) (processInput (input s))"
  have tr: "truthy (Some t)" using assms(7) by (simp add: truthy_def)
  have fc: "(if isFactCheckEnabled s then getFactCheckCorrection b (textOf (Some t)) else ([], None)) = ([], None)"
    using assms(3) by simp
  note tb = tryBlock_success [OF assms(4) assms(5) assms(6) tr fc]
  show ?thesis
    unfolding submit_def messages_run handleSend_pass [OF assms(1,2) tb]
    by (simp add: textOf_def)
qed

theorem no_fact_check_when_disabled_witness:
  "trim (input unchecked_state) \<noteq> [] \<and> \<not> isLoading unchecked_state
   \<and> \<not> isFactCheckEnabled unchecked_state
   \<and> messages (submit demo_backend unchecked_state) =
       [greeting,
        \<lparr>msg_id = 1700000000000, msg_text = ''the sky is green?'',
           sender = User, correction = None, isError = False\<rparr>,
        \<lparr>msg_id = 1700000002501, msg_text = ''The sky is green due to scattering.'',
           sender = Bot, correction = None, isError = False\<rparr>]
   \<and> filter isFactCheckCall (handleSend demo_backend unchecked_state) = []"
proof -
  let ?p = "buildPrompt (messages unchecked_state) (isContextEnabled unchecked_state) (processInput (input unchecked_state))"
  let ?r = "\<lparr>ok = True, status = 200, json = Inr (Some ''The sky is green due to scattering.'')\<rparr>"
  have g: "trim (input unchecked_state) \<noteq> []" "\<not> isLoading unchecked_state"
    using demo_guard by (simp_all add: unchecked_state_def)
  have n: "\<not> isFactCheckEnabled unchecked_state" by (simp add: unchecked_state_def)
  have f: "fetch demo_backend ?p = Inr ?r" by (simp add: demo_backend_def)
  have o: "ok ?r" and j: "json ?r = Inr (Some ''The sky is green due to scattering.'')"
    and t: "''The sky is green due to scattering.'' \<noteq> []"
    by simp_all
  have q: "processInput (input unchecked_state) = ''the sky is green?''" by code_simp
  have m: "messages unchecked_state = [greeting]"
    by (simp add: unchecked_state_def demo_state_def initial_def)
  have d: "dateNow_user demo_backend = 1700000000000" "dateNow_bot demo_backend = 1700000002500"
    by (simp_all add: demo_backend_def)
  from no_fact_check_when_disabled [OF g n f o j t] g n q m d
  show ?thesis by simp
qed

text \<open>
  Claim C10. In every state the component can reach, the conversation starts with the
  greeting, and the prompt of a turn is built from the conversation as it stood when the
  turn began: the user's message of the turn is appended after that history and is not
  part of it.
\<close>

theorem context_window_precedes_turn:
  assumes "trim (input (exec as)) \<noteq> []" and "\<not> isLoading (exec as)"
  shows "\<exists>rest um bm.
           messages (exec as) = greeting # rest
         \<and> messages (submit b (exec as)) = greeting # rest @ [um, bm]
         \<and> sender um = User \<and> msg_text um = processInput (input (exec as))
         \<and> fetched (handleSend b (exec as)) =
             [buildPrompt (greeting # rest) (isContextEnabled (exec as)) (processInput (input (exec as)))]"
proof -
  obtain rest where g: "messages (exec as) = greeting # rest"
    using exec_keeps_greeting by blast
  obtain bm where a: "appended (handleSend b (exec as)) =
     [\<lparr>msg_id = dateNow_user b, msg_text = processInput (input (exec as)),
               sender = User, correction = None, isError = False\<rparr>, bm]"
    using turn_messages [OF assms] by blast
  have "messages (submit b (exec as)) = greeting # rest @ appended (handleSend b (exec as))"
    by (simp add: submit_def messages_run g)
  with g a turn_fetched [OF assms, of b] show ?thesis by simp
qed

theorem context_window_precedes_turn_witness:
  "trim (input (exec [Type ''the sky is green''])) \<noteq> [] \<and> \<not> isLoading (exec [Type ''the sky is green''])
   \<and> fetched (handleSend demo_backend (exec [Type ''the sky is green''])) =
       [''Previous conversation:\<newline>Hello! Ask me anything. My responses can be fact-checked in real-time.\<newline>\<newline>Current question: the sky is green?'']
   \<and> map msg_text (messages (submit demo_backend (exec [Type ''the sky is green'']))) =
       [''Hello! Ask me anything. My responses can be fact-checked in real-time.'',
        ''the sky is green?'', ''The sky is green due to scattering.'']"
proof -
  let ?s = "exec [Type ''the sky is green'']"
  have e: "?s = demo_state" by (simp add: exec_def demo_state_def initial_def)
  have g: "trim (input ?s) \<noteq> []" "\<not> isLoading ?s"
    unfolding e by (rule demo_guard)+
  have m: "messages ?s = [greeting]" by (simp add: e demo_state_def initial_def)
  from context_window_precedes_turn [OF g, of demo_backend] obtain rest um bm where
    r: "messages ?s = greeting # rest"
    and s: "messages (submit demo_backend ?s) = greeting # rest @ [um, bm]"
    and f: "fetched (handleSend demo_backend ?s) =
             [buildPrompt (greeting # rest) (isContextEnabled ?s) (processInput (input ?s))]"
    by blast
  from r m have rest: "rest = []" by simp
  have p: "buildPrompt [greeting] (isContextEnabled ?s) (processInput (input ?s)) =
     ''Previous conversation:\<newline>Hello! Ask me anything. My responses can be fact-checked in real-time.\<newline>\<newline>Current question: the sky is green?''"
    using demo_prompt by (simp add: e demo_state_def initial_def)
  have t: "map msg_text (messages (submit demo_backend ?s)) =
       [''Hello! Ask me anything. My responses can be fact-checked in real-time.'',
        ''the sky is green?'', ''The sky is green due to scattering.'']"
    unfolding e by code_simp
  from g f rest p t show ?thesis by simp
qed

text \<open>
  Claim C9 asks for message ids that are unique and increase in creation order. The ids
  are clock readings: \<^verbatim>\<open>Date.now()\<close> for a user message and \<^verbatim>\<open>Date.now() + 1\<close> for a
  bot message. When a turn starts one millisecond after the previous bot message was
  built, the new user message gets the id of that bot message.
\<close>

theorem message_ids_collide:
  "map msg_id (messages (exec [Type ''the sky is green'', Submit demo_backend,
                               Type ''why'', Submit next_turn_backend]))
     = [1, 1700000000000, 1700000002501, 1700000002501, 1700000004001]
   \<and> \<not> distinct (map msg_id (messages (exec [Type ''the sky is green'', Submit demo_backend,
                               Type ''why'', Submit next_turn_backend])))"
proof -
  have e: "map msg_id (messages (exec [Type ''the sky is green'', Submit demo_backend,
                               Type ''why'', Submit next_turn_backend]))
     = [1, 1700000000000, 1700000002501, 1700000002501, 1700000004001]"
    by code_simp
  show ?thesis unfolding e by simp
qed

text \<open>
  What the ids do guarantee: a turn adds the two clock-derived ids in order, so the ids
  stay strictly increasing as long as the clock at the start of a turn is past every id
  already in the conversation and does not go back during the turn.
\<close>

lemma turn_ids_increase:
  assumes "trim (input s) \<noteq> []" and "\<not> isLoading s"
    and "sorted_wrt (<) (map msg_id (messages s))"
    and "list_all (\<lambda>m. msg_id m < dateNow_user b) (messages s)"
    and "dateNow_user b \<le> dateNow_bot b"
  shows "sorted_wrt (<) (map msg_id (messages (submit b s)))"
  unfolding turn_ids [OF assms(1,2)] using assms(3-5)
  by (auto simp add: sorted_wrt_append list_all_iff)

end
